theory Spec2Isabelle
  imports Main "HOL-Library.Char_ord" "HOL-Library.List_Lexorder" "HOL-Library.Product_Lexorder"
begin

section \<open>Array bounds engine: name heuristics (ArrayBoundsInferenceConsumer.cpp)\<close>

text \<open>
  Strings are byte lists. \<open>std::tolower\<close> in the C locale maps the bytes \<open>A..Z\<close> to
  \<open>a..z\<close> and leaves every other byte alone.
\<close>

definition tolower :: "char \<Rightarrow> char" where
  "tolower c = (let n = (of_char c :: nat) in if 65 \<le> n \<and> n \<le> 90 then char_of (n + 32) else c)"

definition toLowerStr :: "string \<Rightarrow> string" where
  "toLowerStr s = map tolower s"

text \<open>\<open>S.rfind(P, 0) == 0\<close>: the string \<open>S\<close> starts with \<open>P\<close>.\<close>

definition startsWith :: "string \<Rightarrow> string \<Rightarrow> bool" where
  "startsWith S P = (take (length P) S = P)"

text \<open>\<open>S.find(P) != std::string::npos\<close>: \<open>P\<close> occurs in \<open>S\<close> as a contiguous substring.\<close>

fun containsStr :: "string \<Rightarrow> string \<Rightarrow> bool" where
  "containsStr [] P = (P = [])"
| "containsStr (c # S) P = (startsWith (c # S) P \<or> containsStr S P)"

text \<open>The two \<open>std::set<std::string>\<close>s of keywords, in their iteration order.\<close>

definition LengthVarNamesPrefixes :: "string list" where
  "LengthVarNamesPrefixes = [''count'', ''len'', ''num'', ''siz'', ''size'']"

definition LengthVarNamesSubstring :: "string list" where
  "LengthVarNamesSubstring = [''length'']"

definition hasNameMatch :: "string \<Rightarrow> string \<Rightarrow> bool" where
  "hasNameMatch PtrName FieldName = startsWith FieldName PtrName"

text \<open>
  Modelled from the spec: \<open>longestCommonSubsequence\<close> is declared outside the files at hand;
  the spec names it the longest common subsequence of the two names.
\<close>

fun longestCommonSubsequence :: "string \<Rightarrow> string \<Rightarrow> nat" where
  "longestCommonSubsequence [] ys = 0"
| "longestCommonSubsequence xs [] = 0"
| "longestCommonSubsequence (x # xs) (y # ys) =
     (if x = y then Suc (longestCommonSubsequence xs ys)
      else max (longestCommonSubsequence (x # xs) ys) (longestCommonSubsequence xs (y # ys)))"

text \<open>
  The source compares \<open>(SubSeqLen * 100.0) / (PtrName.length() * 1.0) >= 80.0\<close> in doubles;
  for lengths of names this is the integer comparison below.
\<close>

definition nameSubStringMatch :: "string \<Rightarrow> string \<Rightarrow> bool" where
  "nameSubStringMatch PtrName FieldName =
     (let P = toLowerStr PtrName; F = toLowerStr FieldName;
          SubSeqLen = longestCommonSubsequence P F
      in if SubSeqLen > 0 then SubSeqLen * 100 \<ge> 80 * length P else False)"

definition fieldNameMatch :: "string \<Rightarrow> bool" where
  "fieldNameMatch FieldName =
     (let F = toLowerStr FieldName
      in if list_ex (\<lambda>PName. startsWith F PName) LengthVarNamesPrefixes then True
         else list_ex (\<lambda>TmpName. containsStr F TmpName) LengthVarNamesSubstring)"

definition hasLengthKeyword :: "string \<Rightarrow> bool" where
  "hasLengthKeyword VarName =
     (let V = toLowerStr VarName
      in list_ex (\<lambda>PName. containsStr V PName)
           (LengthVarNamesPrefixes @ LengthVarNamesSubstring))"

section \<open>Bounds keys and the bounds store\<close>

type_synonym BoundsKey = nat

datatype ABounds = CountBound BoundsKey | ByteBound BoundsKey

record AVarBoundsInfo =
  BInfo :: "BoundsKey \<rightharpoonup> ABounds"
  NamePrefixMatch :: "BoundsKey set"
  AllocatorMatch :: "BoundsKey set"
  VariableNameMatch :: "BoundsKey set"
  NeighbourParamMatch :: "BoundsKey set"

definition emptyABInfo :: AVarBoundsInfo where
  "emptyABInfo = \<lparr> BInfo = Map.empty, NamePrefixMatch = {}, AllocatorMatch = {},
                    VariableNameMatch = {}, NeighbourParamMatch = {} \<rparr>"

text \<open>
  Modelled from the spec: \<open>AVarBoundsInfo::replaceBounds\<close> is not among the files at hand.
  The spec stores bounds keyed by Bounds Key; a later match may replace an earlier one but
  never downgrades a confirmed allocation-site match: the bound recorded for the key is
  overwritten, unless the key has an allocation-site match, which keeps what it has.
\<close>

definition replaceBounds :: "BoundsKey \<Rightarrow> ABounds \<Rightarrow> AVarBoundsInfo \<Rightarrow> AVarBoundsInfo" where
  "replaceBounds K B ABI =
     (if K \<in> AllocatorMatch ABI then ABI else ABI\<lparr> BInfo := (BInfo ABI)(K \<mapsto> B) \<rparr>)"

section \<open>Structure fields: GlobalABVisitor::VisitRecordDecl\<close>

record FieldDecl =
  fldName :: string
  fldIsIntegerType :: bool
  fldKey :: "BoundsKey option"        \<comment> \<open>\<open>ABInfo.getVariable(FldDecl, FldKey)\<close>\<close>
  fldNeedArrayBounds :: bool          \<comment> \<open>\<open>needArrayBounds(FldDecl, Info, Context)\<close>\<close>

record RecordDecl =
  isStructOrUnion :: bool
  recFields :: "FieldDecl list"

text \<open>
  \<open>PotLenFields\<close> and \<open>IdentifiedArrVars\<close> are \<open>std::set<std::pair<std::string, BoundsKey>>\<close>:
  iterated in ascending order, without duplicates.
\<close>

definition PotLenFields :: "FieldDecl list \<Rightarrow> (string \<times> BoundsKey) list" where
  "PotLenFields fs =
     sort (remdups (List.map_filter
       (\<lambda>f. if fldIsIntegerType f then map_option (\<lambda>k. (fldName f, k)) (fldKey f) else None) fs))"

definition IdentifiedArrVars :: "FieldDecl list \<Rightarrow> (string \<times> BoundsKey) list" where
  "IdentifiedArrVars fs =
     sort (remdups (List.map_filter
       (\<lambda>f. if fldNeedArrayBounds f then map_option (\<lambda>k. (fldName f, k)) (fldKey f) else None) fs))"

text \<open>The inner loop over \<open>PotLenFields\<close> for one array field; \<open>break\<close> ends the recursion.\<close>

fun lenFieldLoop :: "(string \<times> BoundsKey) \<Rightarrow> (string \<times> BoundsKey) list \<Rightarrow>
    AVarBoundsInfo \<Rightarrow> AVarBoundsInfo" where
  "lenFieldLoop PtrField [] ABI = ABI"
| "lenFieldLoop PtrField (LenField # rest) ABI =
     (if hasNameMatch (fst PtrField) (fst LenField) then
        (if hasLengthKeyword (fst LenField) then
           replaceBounds (snd PtrField) (CountBound (snd LenField))
             (ABI\<lparr> NamePrefixMatch := insert (snd PtrField) (NamePrefixMatch ABI) \<rparr>)
         else
           lenFieldLoop PtrField rest
             (replaceBounds (snd PtrField) (CountBound (snd LenField))
               (ABI\<lparr> VariableNameMatch := insert (snd PtrField) (VariableNameMatch ABI) \<rparr>)))
      else lenFieldLoop PtrField rest ABI)"

definition VisitRecordDecl :: "RecordDecl \<Rightarrow> AVarBoundsInfo \<Rightarrow> AVarBoundsInfo" where
  "VisitRecordDecl RD ABI =
     (if isStructOrUnion RD then
        (let Pot = PotLenFields (recFields RD); Arrs = IdentifiedArrVars (recFields RD)
         in if Arrs \<noteq> [] \<and> Pot \<noteq> []
            then foldl (\<lambda>st PtrField. lenFieldLoop PtrField Pot st) ABI Arrs
            else ABI)
      else ABI)"

section \<open>Function parameters: GlobalABVisitor::VisitFunctionDecl\<close>

record ParmVarDecl =
  parmName :: string
  parmKey :: "BoundsKey option"       \<comment> \<open>\<open>ABInfo.getVariable(PVD, PK)\<close>\<close>
  parmNeedArrayBounds :: bool         \<comment> \<open>\<open>needArrayBounds(PVD, Info, Context)\<close>\<close>
  parmNeedNTArrayBounds :: bool       \<comment> \<open>\<open>needArrayBounds(PVD, Info, Context, true)\<close>\<close>
  parmIsIntegerType :: bool
  parmIsEnumeralType :: bool

record FunctionDeclAB =
  isDefinitionWithBody :: bool        \<comment> \<open>\<open>isThisDeclarationADefinition() && hasBody()\<close>\<close>
  hasFunctionProtoType :: bool        \<comment> \<open>\<open>Ty->getAs<FunctionProtoType>() != nullptr\<close>\<close>
  parms :: "ParmVarDecl list"

text \<open>
  \<open>ParamInfo\<close> is either null or the local visitor with its set \<open>NonLengthParameters\<close>
  (of parameter positions, here).
\<close>

definition isNonLengthParameter :: "nat set \<Rightarrow> nat \<Rightarrow> ParmVarDecl \<Rightarrow> bool" where
  "isNonLengthParameter NonLengthParameters i PVD =
     (if parmIsEnumeralType PVD then True else i \<in> NonLengthParameters)"

definition IsPotentialLengthVar :: "nat set option \<Rightarrow> nat \<Rightarrow> ParmVarDecl \<Rightarrow> bool" where
  "IsPotentialLengthVar ParamInfo i PVD =
     (if parmIsIntegerType PVD then
        (case ParamInfo of None \<Rightarrow> True | Some NL \<Rightarrow> \<not> isNonLengthParameter NL i PVD)
      else False)"

type_synonym ParamMap = "(nat \<times> (string \<times> BoundsKey)) list"

text \<open>The three \<open>std::map\<close>s keyed by parameter position, as association lists in ascending order.\<close>

definition ParamArrays :: "ParmVarDecl list \<Rightarrow> ParamMap" where
  "ParamArrays ps = List.map_filter
     (\<lambda>(i, p). case parmKey p of None \<Rightarrow> None
        | Some PK \<Rightarrow> if parmNeedArrayBounds p then Some (i, (parmName p, PK)) else None)
     (enumerate 0 ps)"

definition ParamNtArrays :: "ParmVarDecl list \<Rightarrow> ParamMap" where
  "ParamNtArrays ps = List.map_filter
     (\<lambda>(i, p). case parmKey p of None \<Rightarrow> None
        | Some PK \<Rightarrow> if parmNeedNTArrayBounds p then Some (i, (parmName p, PK)) else None)
     (enumerate 0 ps)"

definition LengthParams :: "nat set option \<Rightarrow> ParmVarDecl list \<Rightarrow> ParamMap" where
  "LengthParams ParamInfo ps = List.map_filter
     (\<lambda>(i, p). case parmKey p of None \<Rightarrow> None
        | Some PK \<Rightarrow> if IsPotentialLengthVar ParamInfo i p then Some (i, (parmName p, PK)) else None)
     (enumerate 0 ps)"

text \<open>
  The loop trying the prefix match and the common-subsequence match for one array
  parameter. It returns \<open>FoundLen\<close> with the store; \<open>break\<close> ends the recursion.
\<close>

fun nameMatchLoop :: "(string \<times> BoundsKey) \<Rightarrow> ParamMap \<Rightarrow> bool \<times> AVarBoundsInfo \<Rightarrow>
    bool \<times> AVarBoundsInfo" where
  "nameMatchLoop Arr [] acc = acc"
| "nameMatchLoop Arr (LenParamPair # rest) (FoundLen, ABI) =
     (if hasNameMatch (fst Arr) (fst (snd LenParamPair)) then
        (True, (replaceBounds (snd Arr) (CountBound (snd (snd LenParamPair))) ABI)
                 \<lparr> NamePrefixMatch := insert (snd Arr) (NamePrefixMatch ABI) \<rparr>)
      else if nameSubStringMatch (fst Arr) (fst (snd LenParamPair)) then
        nameMatchLoop Arr rest
          (True, (replaceBounds (snd Arr) (CountBound (snd (snd LenParamPair))) ABI)
                   \<lparr> NamePrefixMatch := insert (snd Arr) (NamePrefixMatch ABI) \<rparr>)
      else nameMatchLoop Arr rest (FoundLen, ABI))"

text \<open>The loop trying the keyword match; it runs only when \<open>FoundLen\<close> is still false.\<close>

fun keywordLoop :: "(string \<times> BoundsKey) \<Rightarrow> ParamMap \<Rightarrow> bool \<times> AVarBoundsInfo \<Rightarrow>
    bool \<times> AVarBoundsInfo" where
  "keywordLoop Arr [] acc = acc"
| "keywordLoop Arr (currLenParamPair # rest) (FoundLen, ABI) =
     (if fieldNameMatch (fst (snd currLenParamPair)) then
        keywordLoop Arr rest
          (True, (replaceBounds (snd Arr) (CountBound (snd (snd currLenParamPair))) ABI)
                   \<lparr> VariableNameMatch := insert (snd Arr) (VariableNameMatch ABI) \<rparr>)
      else keywordLoop Arr rest (FoundLen, ABI))"

text \<open>The body of the loop over \<open>ParamArrays\<close> for one array parameter.\<close>

definition arrParamBody :: "ParamMap \<Rightarrow> (nat \<times> (string \<times> BoundsKey)) \<Rightarrow> AVarBoundsInfo \<Rightarrow>
    AVarBoundsInfo" where
  "arrParamBody LenPs ArrParamPair ABI =
     (let PIdx = fst ArrParamPair; PBKey = snd (snd ArrParamPair)
      in case map_of LenPs (PIdx + 1) of
           Some Adj \<Rightarrow>
             (replaceBounds PBKey (CountBound (snd Adj)) ABI)
               \<lparr> NeighbourParamMatch := insert PBKey (NeighbourParamMatch ABI) \<rparr>
         | None \<Rightarrow>
             (let r1 = nameMatchLoop (snd ArrParamPair) LenPs (False, ABI);
                  r2 = (if \<not> fst r1 then keywordLoop (snd ArrParamPair) LenPs r1 else r1)
              in snd r2))"

definition ntArrParamBody :: "ParamMap \<Rightarrow> (nat \<times> (string \<times> BoundsKey)) \<Rightarrow> AVarBoundsInfo \<Rightarrow>
    AVarBoundsInfo" where
  "ntArrParamBody LenPs CurrNtArr ABI =
     (let PIdx = fst CurrNtArr; PBKey = snd (snd CurrNtArr)
      in case map_of LenPs (PIdx + 1) of
           Some Adj \<Rightarrow>
             (if fieldNameMatch (fst Adj) then
                (replaceBounds PBKey (CountBound (snd Adj)) ABI)
                  \<lparr> VariableNameMatch := insert PBKey (VariableNameMatch ABI) \<rparr>
              else ABI)
         | None \<Rightarrow> ABI)"

definition VisitFunctionDecl :: "nat set option \<Rightarrow> FunctionDeclAB \<Rightarrow> AVarBoundsInfo \<Rightarrow>
    AVarBoundsInfo" where
  "VisitFunctionDecl ParamInfo FD ABI =
     (if isDefinitionWithBody FD \<and> hasFunctionProtoType FD then
        (let Arrs = ParamArrays (parms FD);
             NtArrs = ParamNtArrays (parms FD);
             LenPs = LengthParams ParamInfo (parms FD);
             ABI1 = (if Arrs \<noteq> [] \<and> LenPs \<noteq> []
                     then foldl (\<lambda>st a. arrParamBody LenPs a st) ABI Arrs else ABI)
         in foldl (\<lambda>st a. ntArrParamBody LenPs a st) ABI1 NtArrs)
      else ABI)"

section \<open>The front end's types, declarations and expressions\<close>

text \<open>
  The static type description of the front end: what the analysis asks of a
  \<open>clang::QualType\<close> is its kind and its pointee, compared structurally.
\<close>

datatype QualType =
    VoidTy | IntTy | CharTy | FloatTy | EnumTy string | RecordTy string
  | PointerTy QualType | ArrayTy QualType | FunctionTy QualType "QualType list"

fun isPointerType :: "QualType \<Rightarrow> bool" where
  "isPointerType (PointerTy T) = True"
| "isPointerType T = False"

fun isArrayType :: "QualType \<Rightarrow> bool" where
  "isArrayType (ArrayTy T) = True"
| "isArrayType T = False"

fun isFunctionType :: "QualType \<Rightarrow> bool" where
  "isFunctionType (FunctionTy T Ps) = True"
| "isFunctionType T = False"

fun isRecordType :: "QualType \<Rightarrow> bool" where
  "isRecordType (RecordTy n) = True"
| "isRecordType T = False"

fun isArithmeticType :: "QualType \<Rightarrow> bool" where
  "isArithmeticType IntTy = True"
| "isArithmeticType CharTy = True"
| "isArithmeticType FloatTy = True"
| "isArithmeticType (EnumTy n) = True"
| "isArithmeticType T = False"

fun isVoidPointerType :: "QualType \<Rightarrow> bool" where
  "isVoidPointerType (PointerTy VoidTy) = True"
| "isVoidPointerType T = False"

text \<open>A source location made persistent (file, line, column), used as a map key.\<close>

type_synonym PersistentSourceLoc = nat

datatype DeclKind = FunctionDeclKind | VarDeclKind | ParmVarDeclKind | FieldDeclKind | OtherDeclKind

datatype Decl = Decl (declKind: DeclKind) (declName: string) (declLoc: PersistentSourceLoc)

datatype BinaryOperatorKind =
    BO_PtrMemD | BO_PtrMemI | BO_Mul | BO_Div | BO_Rem | BO_Add | BO_Sub | BO_Shl | BO_Shr
  | BO_Cmp | BO_LT | BO_GT | BO_LE | BO_GE | BO_EQ | BO_NE | BO_And | BO_Xor | BO_Or
  | BO_LAnd | BO_LOr | BO_Assign | BO_MulAssign | BO_DivAssign | BO_RemAssign | BO_AddAssign
  | BO_SubAssign | BO_ShlAssign | BO_ShrAssign | BO_AndAssign | BO_XorAssign | BO_OrAssign
  | BO_Comma

datatype UnaryOperatorKind =
    UO_PostInc | UO_PostDec | UO_PreInc | UO_PreDec | UO_AddrOf | UO_Deref | UO_Plus
  | UO_Minus | UO_Not | UO_LNot | UO_Real | UO_Imag | UO_Extension | UO_Coawait

datatype UETTKind = UETT_SizeOf | UETT_AlignOf | UETT_OtherTrait

text \<open>
  Expression nodes. Every node carries its identity (the key of the memoization) and its
  static type. A call carries the callee expression, the callee declaration if the
  front end resolved one, and the arguments. A statement expression carries the
  expression its block ends in, if it ends in one.
\<close>

type_synonym ExprId = nat

datatype Expr =
    DeclRefExpr ExprId QualType Decl
  | MemberExpr ExprId QualType Expr Decl
  | ParenExpr ExprId QualType Expr
  | ImplicitCastExpr ExprId QualType Expr
  | CStyleCastExpr ExprId QualType Expr
  | BinaryOperator ExprId QualType BinaryOperatorKind Expr Expr
  | UnaryOperator ExprId QualType UnaryOperatorKind Expr
  | ArraySubscriptExpr ExprId QualType Expr Expr
  | CallExpr ExprId QualType Expr "Decl option" "Expr list"
  | ConditionalOperator ExprId QualType Expr Expr Expr
  | InitListExpr ExprId QualType "Expr list"
  | CompoundLiteralExpr ExprId QualType Expr
  | StringLiteral ExprId QualType string
  | StmtExpr ExprId QualType "Expr option"
  | CHKCBindTemporaryExpr ExprId QualType Expr
  | UnaryExprOrTypeTraitExpr ExprId QualType UETTKind QualType
  | IntegerLiteral ExprId QualType int
  | OtherExpr ExprId QualType

fun getType :: "Expr \<Rightarrow> QualType" where
  "getType (DeclRefExpr i T d) = T"
| "getType (MemberExpr i T b d) = T"
| "getType (ParenExpr i T e) = T"
| "getType (ImplicitCastExpr i T e) = T"
| "getType (CStyleCastExpr i T e) = T"
| "getType (BinaryOperator i T opc l r) = T"
| "getType (UnaryOperator i T opc e) = T"
| "getType (ArraySubscriptExpr i T b x) = T"
| "getType (CallExpr i T c d args) = T"
| "getType (ConditionalOperator i T c l r) = T"
| "getType (InitListExpr i T es) = T"
| "getType (CompoundLiteralExpr i T e) = T"
| "getType (StringLiteral i T s) = T"
| "getType (StmtExpr i T r) = T"
| "getType (CHKCBindTemporaryExpr i T e) = T"
| "getType (UnaryExprOrTypeTraitExpr i T k A) = T"
| "getType (IntegerLiteral i T n) = T"
| "getType (OtherExpr i T) = T"

fun exprId :: "Expr \<Rightarrow> ExprId" where
  "exprId (DeclRefExpr i T d) = i"
| "exprId (MemberExpr i T b d) = i"
| "exprId (ParenExpr i T e) = i"
| "exprId (ImplicitCastExpr i T e) = i"
| "exprId (CStyleCastExpr i T e) = i"
| "exprId (BinaryOperator i T opc l r) = i"
| "exprId (UnaryOperator i T opc e) = i"
| "exprId (ArraySubscriptExpr i T b x) = i"
| "exprId (CallExpr i T c d args) = i"
| "exprId (ConditionalOperator i T c l r) = i"
| "exprId (InitListExpr i T es) = i"
| "exprId (CompoundLiteralExpr i T e) = i"
| "exprId (StringLiteral i T s) = i"
| "exprId (StmtExpr i T r) = i"
| "exprId (CHKCBindTemporaryExpr i T e) = i"
| "exprId (UnaryExprOrTypeTraitExpr i T k A) = i"
| "exprId (IntegerLiteral i T n) = i"
| "exprId (OtherExpr i T) = i"

text \<open>\<open>Expr::IgnoreParens\<close> and \<open>Expr::IgnoreParenImpCasts\<close>.\<close>

fun IgnoreParens :: "Expr \<Rightarrow> Expr" where
  "IgnoreParens (ParenExpr i T e) = IgnoreParens e"
| "IgnoreParens e = e"

fun IgnoreParenImpCasts :: "Expr \<Rightarrow> Expr" where
  "IgnoreParenImpCasts (ParenExpr i T e) = IgnoreParenImpCasts e"
| "IgnoreParenImpCasts (ImplicitCastExpr i T e) = IgnoreParenImpCasts e"
| "IgnoreParenImpCasts e = e"

text \<open>
  \<open>removeAuxillaryCasts\<close> is declared outside the files at hand; as its name and its use
  say, it strips parentheses, implicit casts and C-style casts from around an expression.
\<close>

fun removeAuxillaryCasts :: "Expr \<Rightarrow> Expr" where
  "removeAuxillaryCasts (ParenExpr i T e) = removeAuxillaryCasts e"
| "removeAuxillaryCasts (ImplicitCastExpr i T e) = removeAuxillaryCasts e"
| "removeAuxillaryCasts (CStyleCastExpr i T e) = removeAuxillaryCasts e"
| "removeAuxillaryCasts e = e"

fun isMultiplicativeOp :: "BinaryOperatorKind \<Rightarrow> bool" where
  "isMultiplicativeOp BO_Mul = True"
| "isMultiplicativeOp BO_Div = True"
| "isMultiplicativeOp BO_Rem = True"
| "isMultiplicativeOp opc = False"

text \<open>Contract violations of the source (a failed \<open>assert\<close>, \<open>llvm_unreachable\<close>, the
  dereference of a null pointer) are values.\<close>

datatype error = AssertionFailed | Unreachable | NullDereference

section \<open>Allocation sites: isAllocatorCall and handleAllocatorCall\<close>

definition AllocatorSizeAssoc :: "string \<rightharpoonup> nat list" where
  "AllocatorSizeAssoc = [''malloc'' \<mapsto> [0], ''calloc'' \<mapsto> [0, 1]]"

definition getCalledFunctionName :: "Decl \<Rightarrow> string" where
  "getCalledFunctionName D = (if declKind D = FunctionDeclKind then declName D else [])"

text \<open>\<open>getSizeOfArg\<close> (ConstraintResolver.cpp): the type a \<open>sizeof\<close> node is applied to.\<close>

fun getSizeOfArg :: "Expr \<Rightarrow> QualType option" where
  "getSizeOfArg (UnaryExprOrTypeTraitExpr i T k A) = (if k = UETT_SizeOf then Some A else None)"
| "getSizeOfArg e = None"

definition isSizeOfExpr :: "Expr \<Rightarrow> bool" where
  "isSizeOfExpr e = (getSizeOfArg e \<noteq> None)"

fun isDeclRefExpr :: "Expr \<Rightarrow> bool" where
  "isDeclRefExpr (DeclRefExpr i T d) = True"
| "isDeclRefExpr e = False"

text \<open>
  What one size argument contributes to \<open>BaseExprs\<close>: both operands of a multiplicative
  operator, or the \<open>sizeof\<close> node itself; \<open>None\<close> for any other node.
\<close>

fun sizeOperands :: "Expr \<Rightarrow> Expr list option" where
  "sizeOperands (BinaryOperator i T opc L R) = (if isMultiplicativeOp opc then Some [L, R] else None)"
| "sizeOperands (UnaryExprOrTypeTraitExpr i T k A) =
     (if k = UETT_SizeOf then Some [UnaryExprOrTypeTraitExpr i T k A] else None)"
| "sizeOperands e = None"

text \<open>
  The first loop of \<open>isAllocatorCall\<close>, over the argument positions that carry the size:
  \<open>Inr None\<close> is \<open>RetVal = false\<close> (the \<open>break\<close>), \<open>Inl\<close> the assertion of
  \<open>CallExpr::getArg\<close> on a position the call does not have.
\<close>

fun baseExprs :: "Expr list \<Rightarrow> nat list \<Rightarrow> error + Expr list option" where
  "baseExprs args [] = Inr (Some [])"
| "baseExprs args (Pidx # rest) =
     (if Pidx \<ge> length args then Inl AssertionFailed
      else
        (case sizeOperands (args ! Pidx) of
           None \<Rightarrow> Inr None
         | Some es \<Rightarrow>
             (case baseExprs args rest of
                Inl err \<Rightarrow> Inl err
              | Inr None \<Rightarrow> Inr None
              | Inr (Some others) \<Rightarrow> Inr (Some (es @ others)))))"

text \<open>
  \<open>isAllocatorCall\<close> returns \<open>RetVal\<close> and, when it is true, \<open>ArgVals\<close>: \<open>Inr (Some ArgVals)\<close>
  for true, \<open>Inr None\<close> for false.
\<close>

definition isAllocatorCall :: "Expr \<Rightarrow> error + Expr list option" where
  "isAllocatorCall E =
     (case removeAuxillaryCasts E of
        CallExpr i T callee (Some D) args \<Rightarrow>
          (case AllocatorSizeAssoc (getCalledFunctionName D) of
             None \<Rightarrow> Inr None
           | Some idxs \<Rightarrow>
               (case baseExprs args idxs of
                  Inl err \<Rightarrow> Inl err
                | Inr None \<Rightarrow> Inr None
                | Inr (Some BaseExprs) \<Rightarrow>
                    if list_all (\<lambda>TmpE. isDeclRefExpr TmpE \<or> isSizeOfExpr TmpE) BaseExprs
                    then Inr (Some BaseExprs) else Inr None))
      | _ \<Rightarrow> Inr None)"

record ProgramVar =
  getScope :: nat
  IsNumConstant :: bool

text \<open>
  The loop of \<open>handleAllocatorCall\<close> over \<open>ArgVals\<close>, on the triple
  (\<open>RK\<close>, \<open>FoundKey\<close>, \<open>IsByteBound\<close>); \<open>RK\<close> is unset until \<open>getVariable\<close> sets it.
  The argument \<open>getVariable\<close> stands for \<open>AVarBoundsInfo::getVariable(Expr *, ...)\<close>,
  which resolves an expression to the bounds key of a variable or constant.
\<close>

fun argValsLoop :: "(Expr \<Rightarrow> BoundsKey option) \<Rightarrow> QualType \<Rightarrow> Expr list \<Rightarrow>
    BoundsKey option \<times> bool \<times> bool \<Rightarrow> BoundsKey option \<times> bool \<times> bool" where
  "argValsLoop getVariable LHSType [] acc = acc"
| "argValsLoop getVariable LHSType (TmpE # rest) (RK, FoundKey, IsByteBound) =
     (case getSizeOfArg TmpE of
        Some A \<Rightarrow>
          if LHSType = PointerTy A
          then argValsLoop getVariable LHSType rest (RK, FoundKey, False)
          else (RK, False, IsByteBound)
      | None \<Rightarrow>
          (case getVariable TmpE of
             Some K \<Rightarrow>
               if \<not> FoundKey then argValsLoop getVariable LHSType rest (Some K, True, IsByteBound)
               else (Some K, False, IsByteBound)
           | None \<Rightarrow> (RK, False, IsByteBound)))"

text \<open>
  \<open>handleAllocatorCall\<close>. The arguments \<open>getProgramVar\<close> and \<open>mergeBounds\<close> stand for
  the methods of \<open>AVarBoundsInfo\<close> of these names, which are declared outside the files at
  hand: the function hands the bound it built to \<open>mergeBounds\<close>.
\<close>

definition handleAllocatorCall ::
  "(Expr \<Rightarrow> BoundsKey option) \<Rightarrow> (BoundsKey \<Rightarrow> ProgramVar) \<Rightarrow>
   (BoundsKey \<Rightarrow> ABounds \<Rightarrow> AVarBoundsInfo \<Rightarrow> AVarBoundsInfo) \<Rightarrow>
   QualType \<Rightarrow> BoundsKey \<Rightarrow> Expr \<Rightarrow> AVarBoundsInfo \<Rightarrow> error + AVarBoundsInfo" where
  "handleAllocatorCall getVariable getProgramVar mergeBounds LHSType LK E ABI =
     (case isAllocatorCall E of
        Inl err \<Rightarrow> Inl err
      | Inr None \<Rightarrow> Inr ABI
      | Inr (Some ArgVals) \<Rightarrow>
          (case argValsLoop getVariable LHSType ArgVals (None, False, True) of
             (Some RK, True, IsByteBound) \<Rightarrow>
               (let PrgLVar = getProgramVar LK; PrgRVar = getProgramVar RK
                in if getScope PrgLVar = getScope PrgRVar \<or> IsNumConstant PrgRVar
                   then Inr (mergeBounds LK (if IsByteBound then ByteBound RK else CountBound RK)
                               (ABI\<lparr> AllocatorMatch := insert LK (AllocatorMatch ABI) \<rparr>))
                   else Inr ABI)
           | _ \<Rightarrow> Inr ABI))"

section \<open>Atoms, constraints and constraint variables\<close>

datatype ConstAtom = PtrAtom | ArrAtom | NTArrAtom | WildAtom

type_synonym ConstraintKey = nat

datatype Atom = VarAtom ConstraintKey | ConstantAtom ConstAtom

text \<open>
  A \<open>Geq\<close> constraint carries its two atoms, the reason string and the optional source
  location it was tagged with; an implication carries its premise and its conclusion.
\<close>

datatype Constraint =
    Geq Atom Atom string "PersistentSourceLoc option"
  | Implies Constraint Constraint

text \<open>
  The two shapes of constraint variable. A pointer variable holds its atoms, outermost
  first, and the function variable of a function pointer; a function variable holds the
  sets of return and parameter variables. Sets of \<open>ConstraintVariable *\<close> are lists, in the
  iteration order of the set.
\<close>

datatype PVConstraint =
    MkPV (pvVars: "Atom list") (pvName: string) (pvFV: "FVConstraint option")
         (pvArrPresent: bool) (pvItype: "string option") (pvOriginallyChecked: bool)
         (pvBoundsKey: "BoundsKey option") (pvIsGeneric: bool)
and FVConstraint =
    MkFV (fvName: string) (fvReturnVars: "ConstraintVariable list")
         (fvParamVars: "ConstraintVariable list list") (fvHasBody: bool) (fvHasProtoType: bool)
and ConstraintVariable =
    PVC PVConstraint
  | FVC FVConstraint

definition numParams :: "FVConstraint \<Rightarrow> nat" where
  "numParams F = length (fvParamVars F)"

text \<open>Every atom a constraint variable owns, through nested function variables.\<close>

fun atomsPV :: "PVConstraint \<Rightarrow> Atom list"
  and atomsFV :: "FVConstraint \<Rightarrow> Atom list"
  and atomsCV :: "ConstraintVariable \<Rightarrow> Atom list"
  and atomsCVs :: "ConstraintVariable list \<Rightarrow> Atom list"
  and atomsCVss :: "ConstraintVariable list list \<Rightarrow> Atom list" where
  "atomsPV (MkPV vs n fv a it oc bk g) = vs @ (case fv of None \<Rightarrow> [] | Some F \<Rightarrow> atomsFV F)"
| "atomsFV (MkFV n rets params b p) = atomsCVs rets @ atomsCVss params"
| "atomsCV (PVC P) = atomsPV P"
| "atomsCV (FVC F) = atomsFV F"
| "atomsCVs [] = []"
| "atomsCVs (c # cs) = atomsCV c @ atomsCVs cs"
| "atomsCVss [] = []"
| "atomsCVss (cs # css) = atomsCVs cs @ atomsCVss css"

text \<open>The constraint set of \<open>Constraints\<close>: a list without duplicates, in insertion order.\<close>

definition addConstraint :: "Constraint \<Rightarrow> Constraint list \<Rightarrow> Constraint list" where
  "addConstraint c cs = (if c \<in> set cs then cs else cs @ [c])"

definition addConstraints :: "Constraint list \<Rightarrow> Constraint list \<Rightarrow> Constraint list" where
  "addConstraints new cs = foldl (\<lambda>acc c. addConstraint c acc) cs new"

text \<open>
  Modelled from the spec: \<open>constrainToWild\<close> of both shapes is defined outside the files at
  hand. The spec: it forces every atom owned by the variable, recursively through nested
  function-shaped return and parameter variables, to the \<open>Wild\<close> constant by an edge
  \<open>Geq(atom, Wild)\<close> tagged with the reason and the optional location. Only unknowns can
  be forced; constants own no edge.
\<close>

fun wildEdges :: "string \<Rightarrow> PersistentSourceLoc option \<Rightarrow> Atom list \<Rightarrow> Constraint list" where
  "wildEdges rsn psl [] = []"
| "wildEdges rsn psl (VarAtom v # as) =
     Geq (VarAtom v) (ConstantAtom WildAtom) rsn psl # wildEdges rsn psl as"
| "wildEdges rsn psl (ConstantAtom c # as) = wildEdges rsn psl as"

definition constrainToWild :: "ConstraintVariable \<Rightarrow> string \<Rightarrow> PersistentSourceLoc option \<Rightarrow>
    Constraint list \<Rightarrow> Constraint list" where
  "constrainToWild V rsn psl cs = addConstraints (wildEdges rsn psl (atomsCV V)) cs"

definition constrainAllToWild :: "ConstraintVariable list \<Rightarrow> string \<Rightarrow> PersistentSourceLoc option \<Rightarrow>
    Constraint list \<Rightarrow> Constraint list" where
  "constrainAllToWild Vs rsn psl cs = foldl (\<lambda>acc V. constrainToWild V rsn psl acc) cs Vs"

datatype ConsAction = Safe_to_Wild | Wild_to_Safe | Same_to_Same

text \<open>
  \<open>constrainConsVarGeq\<close> is defined outside the files at hand. It is a parameter of the
  functions below: given the two sets of variables, the location, the flow policy and the
  \<open>doEqType\<close> flag it yields the edges that the call adds to the constraint set.
\<close>

type_synonym ConsVarGeq =
  "ConstraintVariable list \<Rightarrow> ConstraintVariable list \<Rightarrow> PersistentSourceLoc option \<Rightarrow>
   ConsAction \<Rightarrow> bool \<Rightarrow> Constraint list"

section \<open>ProgramInfo: the state of the analysis (ProgramInfo.cpp)\<close>

text \<open>
  A \<open>std::map\<close> is an association list in the order of its keys; \<open>mapSet\<close> is the
  assignment \<open>M[k] = v\<close>, \<open>mapGet\<close> the read \<open>M[k]\<close> of a set-valued map, which is empty
  for a key the map does not hold.
\<close>

fun mapSet :: "'k::linorder \<Rightarrow> 'v \<Rightarrow> ('k \<times> 'v) list \<Rightarrow> ('k \<times> 'v) list" where
  "mapSet k v [] = [(k, v)]"
| "mapSet k v ((k', v') # m) =
     (if k = k' then (k, v) # m
      else if k < k' then (k, v) # (k', v') # m
      else (k', v') # mapSet k v m)"

definition mapGet :: "('k \<times> 'v list) list \<Rightarrow> 'k \<Rightarrow> 'v list" where
  "mapGet m k = (case map_of m k of None \<Rightarrow> [] | Some v \<Rightarrow> v)"

record ProgramInfo =
  CS :: "Constraint list"
  nextVar :: ConstraintKey
  Variables :: "(PersistentSourceLoc \<times> ConstraintVariable list) list"
  GlobalVariableSymbols :: "(string \<times> ConstraintVariable list) list"
  ExternalFunctionDeclFVCons :: "(string \<times> FVConstraint list) list"
  ExternalFunctionDefnFVCons :: "(string \<times> FVConstraint list) list"
  StaticFunctionDeclFVCons :: "(string \<times> (string \<times> FVConstraint list) list) list"
  StaticFunctionDefnFVCons :: "(string \<times> (string \<times> FVConstraint list) list) list"
  ExternFunctions :: "(string \<times> bool) list"
  MultipleRewrites :: bool
  SeperateMultipleFuncDecls :: bool
  PersistentConstraints :: "ExprId \<rightharpoonup> ConstraintVariable list \<times> BoundsKey list"

definition isExternOkay :: "string \<Rightarrow> bool" where
  "isExternOkay Ext = (Ext = ''malloc'' \<or> Ext = ''free'')"

subsection \<open>ProgramInfo::link\<close>

text \<open>
  The loop shared by the first two phases: every variable of a set is constrained to its
  successor, \<open>Same_to_Same\<close> with \<open>doEqType\<close>. The sets have more than one member when the
  loop runs.
\<close>

fun chainEqual :: "ConsVarGeq \<Rightarrow> ConstraintVariable list \<Rightarrow> Constraint list \<Rightarrow> Constraint list" where
  "chainEqual cGeq (I # J # rest) cs =
     chainEqual cGeq (J # rest) (addConstraints (cGeq [I] [J] None Same_to_Same True) cs)"
| "chainEqual cGeq C cs = cs"

text \<open>
  The comparison of two declarations \<open>P1\<close> and \<open>P2\<close> of one function, neither with a body:
  returns are equated; parameters are equated position by position when the arities
  agree; when they differ and both declarations have a prototype, both are constrained to
  \<open>Wild\<close>.
\<close>

definition compareDecls :: "ConsVarGeq \<Rightarrow> FVConstraint \<Rightarrow> FVConstraint \<Rightarrow> Constraint list \<Rightarrow>
    Constraint list" where
  "compareDecls cGeq P1 P2 cs =
     (let cs1 = addConstraints (cGeq (fvReturnVars P1) (fvReturnVars P2) None Same_to_Same True) cs
      in if numParams P1 = numParams P2 then
           foldl (\<lambda>acc i. addConstraints
                    (cGeq (fvParamVars P1 ! i) (fvParamVars P2 ! i) None Same_to_Same True) acc)
                 cs1 [0 ..< numParams P1]
         else if fvHasProtoType P1 \<and> fvHasProtoType P2 then
           (let rsn = ''Return value of function:'' @ fvName P1
            in constrainToWild (FVC P2) rsn None (constrainToWild (FVC P1) rsn None cs1))
         else cs1)"

text \<open>
  The \<open>while (J != P.end())\<close> loop over the declarations of one name, with the iterators
  \<open>I\<close> and \<open>J\<close> as positions and the flag \<open>Gap\<close>, which is declared outside the loop over
  the names and so is carried from one name to the next.
\<close>

function declLoop :: "ConsVarGeq \<Rightarrow> FVConstraint list \<Rightarrow> nat \<Rightarrow> nat \<Rightarrow> bool \<times> Constraint list \<Rightarrow>
    bool \<times> Constraint list" where
  "declLoop cGeq P I J (Gap, cs) =
     (if J \<ge> length P then (Gap, cs)
      else
        (let P1 = P ! I; P2 = P ! J
         in if fvHasBody P2 then declLoop cGeq P I (Suc J) (True, cs)
            else
              (let cs1 = (if \<not> fvHasBody P1 \<and> \<not> fvHasBody P2 then compareDecls cGeq P1 P2 cs else cs)
               in if \<not> Gap then declLoop cGeq P (Suc I) (Suc J) (False, cs1)
                  else declLoop cGeq P (Suc I) J (False, cs1))))"
  by pat_completeness auto
termination
  by (relation "measure (\<lambda>(cGeq, P, I, J, Gap, cs). 2 * (length P - J) + (if Gap then 1 else 0))")
     auto

definition mergeDecls :: "ConsVarGeq \<Rightarrow> (string \<times> FVConstraint list) list \<Rightarrow> Constraint list \<Rightarrow>
    Constraint list" where
  "mergeDecls cGeq M cs =
     snd (foldl (\<lambda>acc S. if length (snd S) > 1 then declLoop cGeq (snd S) 0 1 acc else acc)
            (False, cs) M)"

text \<open>The last phase, for one entry \<open>U\<close> of \<open>ExternFunctions\<close>; \<open>Inl\<close> is the failed assertion.\<close>

definition wildExternal :: "FVConstraint \<Rightarrow> string \<Rightarrow> Constraint list \<Rightarrow> Constraint list" where
  "wildExternal G FuncName cs =
     (let cs1 = foldl (\<lambda>acc U. constrainToWild U
                   (''Return value of an external function:'' @ FuncName) None acc) cs (fvReturnVars G)
      in foldl (\<lambda>acc PVar. constrainToWild PVar
                   ''Inner pointer of a parameter to external function.'' None acc)
           cs1 (concat (fvParamVars G)))"

fun externLoop :: "(string \<times> FVConstraint list) list \<Rightarrow> (string \<times> bool) list \<Rightarrow> Constraint list \<Rightarrow>
    error + Constraint list" where
  "externLoop Decls [] cs = Inr cs"
| "externLoop Decls (U # rest) cs =
     (if snd U = False \<and> isExternOkay (fst U) = False then
        (case map_of Decls (fst U) of
           None \<Rightarrow> Inl AssertionFailed
         | Some Gs \<Rightarrow> externLoop Decls rest (foldl (\<lambda>acc G. wildExternal G (fst U) acc) cs Gs))
      else externLoop Decls rest cs)"

definition link :: "ConsVarGeq \<Rightarrow> ProgramInfo \<Rightarrow> error + ProgramInfo" where
  "link cGeq Info =
     (let cs1 = foldl (\<lambda>acc V. if length (snd V) > 1 then chainEqual cGeq (snd V) acc else acc)
                  (CS Info) (Variables Info);
          cs2 = foldl (\<lambda>acc V. if length (snd V) > 1 then chainEqual cGeq (snd V) acc else acc)
                  cs1 (GlobalVariableSymbols Info);
          cs3 = (if \<not> SeperateMultipleFuncDecls Info
                 then mergeDecls cGeq (ExternalFunctionDeclFVCons Info) cs2 else cs2)
      in case externLoop (ExternalFunctionDeclFVCons Info) (ExternFunctions Info) cs3 of
           Inl err \<Rightarrow> Inl err
         | Inr cs4 \<Rightarrow> Inr (Info\<lparr> CS := cs4 \<rparr>))"

subsection \<open>Creating constraint variables\<close>

text \<open>
  Modelled from the spec: the constructors of \<open>PVConstraint\<close> and \<open>FVConstraint\<close> are not
  among the files at hand. The spec: a pointer-shaped variable has one atom per pointer or
  array level, outermost first, each a fresh unknown, and a nested function-shaped
  variable when the type is a pointer to function; a function-shaped variable has a return
  variable and one set of parameter variables per parameter, holding one variable.
  The counter of fresh unknowns is threaded through.
\<close>

fun newPVAtoms :: "QualType \<Rightarrow> string \<Rightarrow> Atom list \<Rightarrow> ConstraintKey \<Rightarrow> PVConstraint \<times> ConstraintKey"
  and newParamVars :: "QualType list \<Rightarrow> ConstraintKey \<Rightarrow> ConstraintVariable list list \<times> ConstraintKey" where
  "newPVAtoms (PointerTy T) n vs k = newPVAtoms T n (vs @ [VarAtom k]) (Suc k)"
| "newPVAtoms (ArrayTy T) n vs k = newPVAtoms T n (vs @ [VarAtom k]) (Suc k)"
| "newPVAtoms (FunctionTy R Ps) n vs k =
     (case newPVAtoms R n [] k of (r, k1) \<Rightarrow>
        (case newParamVars Ps k1 of (ps, k2) \<Rightarrow>
           (MkPV vs n (Some (MkFV n [PVC r] ps False True)) False None False None False, k2)))"
| "newPVAtoms VoidTy n vs k = (MkPV vs n None False None False None False, k)"
| "newPVAtoms IntTy n vs k = (MkPV vs n None False None False None False, k)"
| "newPVAtoms CharTy n vs k = (MkPV vs n None False None False None False, k)"
| "newPVAtoms FloatTy n vs k = (MkPV vs n None False None False None False, k)"
| "newPVAtoms (EnumTy e) n vs k = (MkPV vs n None False None False None False, k)"
| "newPVAtoms (RecordTy r) n vs k = (MkPV vs n None False None False None False, k)"
| "newParamVars [] k = ([], k)"
| "newParamVars (T # Ts) k =
     (case newPVAtoms T [] [] k of (p, k1) \<Rightarrow>
        (case newParamVars Ts k1 of (ps, k2) \<Rightarrow> ([PVC p] # ps, k2)))"

definition newPVConstraint :: "QualType \<Rightarrow> string \<Rightarrow> ConstraintKey \<Rightarrow> PVConstraint \<times> ConstraintKey" where
  "newPVConstraint T n k = newPVAtoms T n [] k"

definition newFVConstraint :: "string \<Rightarrow> QualType \<Rightarrow> QualType list \<Rightarrow> bool \<Rightarrow> bool \<Rightarrow> ConstraintKey \<Rightarrow>
    FVConstraint \<times> ConstraintKey" where
  "newFVConstraint n R Ps body proto k =
     (case newPVConstraint R n k of (r, k1) \<Rightarrow>
        (case newParamVars Ps k1 of (ps, k2) \<Rightarrow> (MkFV n [PVC r] ps body proto, k2)))"

subsection \<open>ProgramInfo::addVariable\<close>

record ParmDecl =
  pdName :: string
  pdLoc :: PersistentSourceLoc
  pdType :: QualType

text \<open>
  The declarator handed to \<open>addVariable\<close>: a function declaration with its return type,
  parameters, linkage, whether it is a definition with a body, its file and whether it has
  a prototype; a variable or a field with its type; or any other declarator. Every one
  carries its persistent location and whether the rewriter can rewrite at its location.
\<close>

datatype DeclaratorDecl =
    FunctionDeclD string PersistentSourceLoc bool QualType "ParmDecl list" bool bool string bool
  | VarDeclD string PersistentSourceLoc bool QualType
  | FieldDeclD string PersistentSourceLoc bool QualType
  | OtherDeclaratorD PersistentSourceLoc bool

fun mkPSL :: "DeclaratorDecl \<Rightarrow> PersistentSourceLoc" where
  "mkPSL (FunctionDeclD n l rw R ps glob body file proto) = l"
| "mkPSL (VarDeclD n l rw T) = l"
| "mkPSL (FieldDeclD n l rw T) = l"
| "mkPSL (OtherDeclaratorD l rw) = l"

fun isRewritable :: "DeclaratorDecl \<Rightarrow> bool" where
  "isRewritable (FunctionDeclD n l rw R ps glob body file proto) = rw"
| "isRewritable (VarDeclD n l rw T) = rw"
| "isRewritable (FieldDeclD n l rw T) = rw"
| "isRewritable (OtherDeclaratorD l rw) = rw"

fun isFVConstraint :: "ConstraintVariable \<Rightarrow> bool" where
  "isFVConstraint (FVC F) = True"
| "isFVConstraint (PVC P) = False"

fun isPVConstraint :: "ConstraintVariable \<Rightarrow> bool" where
  "isPVConstraint (PVC P) = True"
| "isPVConstraint (FVC F) = False"

text \<open>\<open>hasConstraintType<T>\<close> at its two instances.\<close>

definition hasFVConstraint :: "ConstraintVariable list \<Rightarrow> bool" where
  "hasFVConstraint S = list_ex isFVConstraint S"

definition hasPVConstraint :: "ConstraintVariable list \<Rightarrow> bool" where
  "hasPVConstraint S = list_ex isPVConstraint S"

definition insertIntoExternalFunctionMap ::
  "(string \<times> FVConstraint list) list \<Rightarrow> string \<Rightarrow> FVConstraint list \<Rightarrow>
   (string \<times> FVConstraint list) list \<times> bool" where
  "insertIntoExternalFunctionMap M FuncName ToIns =
     (if map_of M FuncName = None then (mapSet FuncName ToIns M, True) else (M, False))"

definition insertIntoStaticFunctionMap ::
  "(string \<times> (string \<times> FVConstraint list) list) list \<Rightarrow> string \<Rightarrow> string \<Rightarrow> FVConstraint list \<Rightarrow>
   (string \<times> (string \<times> FVConstraint list) list) list \<times> bool" where
  "insertIntoStaticFunctionMap M FuncName FileName ToIns =
     (case map_of M FuncName of
        None \<Rightarrow> (mapSet FuncName [(FileName, ToIns)] M, True)
      | Some files \<Rightarrow>
          if map_of files FileName = None
          then (mapSet FuncName (mapSet FileName ToIns files) M, True)
          else (M, False))"

text \<open>A failed insertion sets \<open>MultipleRewrites\<close>.\<close>

definition insertNewFVConstraints :: "string \<Rightarrow> bool \<Rightarrow> bool \<Rightarrow> string \<Rightarrow> FVConstraint list \<Rightarrow>
    ProgramInfo \<Rightarrow> ProgramInfo" where
  "insertNewFVConstraints FuncName glob body FuncFileName FVcons Info =
     (if glob then
        (if body then
           (case insertIntoExternalFunctionMap (ExternalFunctionDefnFVCons Info) FuncName FVcons of
              (M, ok) \<Rightarrow> Info\<lparr> ExternalFunctionDefnFVCons := M,
                               MultipleRewrites := (MultipleRewrites Info \<or> \<not> ok) \<rparr>)
         else
           (case insertIntoExternalFunctionMap (ExternalFunctionDeclFVCons Info) FuncName FVcons of
              (M, ok) \<Rightarrow> Info\<lparr> ExternalFunctionDeclFVCons := M,
                               MultipleRewrites := (MultipleRewrites Info \<or> \<not> ok) \<rparr>))
      else
        (if body then
           (case insertIntoStaticFunctionMap (StaticFunctionDefnFVCons Info) FuncName FuncFileName FVcons of
              (M, ok) \<Rightarrow> Info\<lparr> StaticFunctionDefnFVCons := M,
                               MultipleRewrites := (MultipleRewrites Info \<or> \<not> ok) \<rparr>)
         else
           (case insertIntoStaticFunctionMap (StaticFunctionDeclFVCons Info) FuncName FuncFileName FVcons of
              (M, ok) \<Rightarrow> Info\<lparr> StaticFunctionDeclFVCons := M,
                               MultipleRewrites := (MultipleRewrites Info \<or> \<not> ok) \<rparr>)))"

text \<open>
  The loop that maps the location of every parameter to the parameter's variables:
  \<open>Variables[PSL].insert(S.begin(), S.end())\<close>. The variables were just created, so the
  insertion adds them.
\<close>

fun insertParamVars :: "ParmDecl list \<Rightarrow> ConstraintVariable list list \<Rightarrow>
    (PersistentSourceLoc \<times> ConstraintVariable list) list \<Rightarrow>
    (PersistentSourceLoc \<times> ConstraintVariable list) list" where
  "insertParamVars (PVD # rest) (S # Ss) V =
     insertParamVars rest Ss
       (if S \<noteq> [] then mapSet (pdLoc PVD) (mapGet V (pdLoc PVD) @ S) V else V)"
| "insertParamVars ps Ss V = V"

text \<open>
  \<open>addVariable\<close>. The reference \<open>S = Variables[PLoc]\<close> creates the entry of the location;
  the final loop over \<open>S\<close> reads the entry as it is then.
\<close>

definition addVariable :: "DeclaratorDecl \<Rightarrow> ProgramInfo \<Rightarrow> error + ProgramInfo" where
  "addVariable D Info =
     (let PLoc = mkPSL D;
          S = mapGet (Variables Info) PLoc;
          Info0 = Info\<lparr> Variables := mapSet PLoc S (Variables Info) \<rparr>;
          added =
            (case D of
               FunctionDeclD FuncName l rw R ps glob body file proto \<Rightarrow>
                 if \<not> hasFVConstraint S then
                   (case newFVConstraint FuncName R (map pdType ps) body proto (nextVar Info0) of
                      (F, k) \<Rightarrow>
                        (let Info1 = Info0\<lparr> nextVar := k,
                                 Variables := mapSet PLoc (S @ [FVC F]) (Variables Info0) \<rparr>;
                             Info2 = insertNewFVConstraints FuncName glob body file [F] Info1
                         in Inr (Info2\<lparr> Variables :=
                                   insertParamVars ps (fvParamVars F) (Variables Info2) \<rparr>)))
                 else Inr Info0
             | VarDeclD n l rw Ty \<Rightarrow>
                 if (isPointerType Ty \<or> isArrayType Ty) \<and> \<not> hasPVConstraint S then
                   (case newPVConstraint Ty n (nextVar Info0) of
                      (P, k) \<Rightarrow> Inr (Info0\<lparr> nextVar := k,
                                   Variables := mapSet PLoc (S @ [PVC P]) (Variables Info0) \<rparr>))
                 else Inr Info0
             | FieldDeclD n l rw Ty \<Rightarrow>
                 if (isPointerType Ty \<or> isArrayType Ty) \<and> \<not> hasPVConstraint S then
                   (case newPVConstraint Ty n (nextVar Info0) of
                      (P, k) \<Rightarrow> Inr (Info0\<lparr> nextVar := k,
                                   Variables := mapSet PLoc (S @ [PVC P]) (Variables Info0) \<rparr>))
                 else Inr Info0
             | OtherDeclaratorD l rw \<Rightarrow> Inl Unreachable)
      in case added of
           Inl err \<Rightarrow> Inl err
         | Inr Info3 \<Rightarrow>
             if \<not> isRewritable D then
               Inr (Info3\<lparr> CS := constrainAllToWild (mapGet (Variables Info3) PLoc)
                                   ''Pointer in Macro declaration.'' None (CS Info3) \<rparr>)
             else Inr Info3)"

text \<open>Predicates on declarators and the number of variables of each shape in a set.\<close>

fun isFunctionDeclD :: "DeclaratorDecl \<Rightarrow> bool" where
  "isFunctionDeclD (FunctionDeclD n l rw R ps glob body fl proto) = True"
| "isFunctionDeclD D = False"

fun paramLocs :: "DeclaratorDecl \<Rightarrow> PersistentSourceLoc set" where
  "paramLocs (FunctionDeclD n l rw R ps glob body fl proto) = pdLoc ` set ps"
| "paramLocs D = {}"

fun isPointerDeclarator :: "DeclaratorDecl \<Rightarrow> bool" where
  "isPointerDeclarator (VarDeclD n l rw T) = (isPointerType T \<or> isArrayType T)"
| "isPointerDeclarator (FieldDeclD n l rw T) = (isPointerType T \<or> isArrayType T)"
| "isPointerDeclarator D = False"

definition countFV :: "ConstraintVariable list \<Rightarrow> nat" where
  "countFV S = length (filter isFVConstraint S)"

definition countPV :: "ConstraintVariable list \<Rightarrow> nat" where
  "countPV S = length (filter isPVConstraint S)"

text \<open>A sequence of calls of \<open>addVariable\<close>, stopping at the first failure.\<close>

fun addVariables :: "DeclaratorDecl list \<Rightarrow> ProgramInfo \<Rightarrow> error + ProgramInfo" where
  "addVariables [] Info = Inr Info"
| "addVariables (D # Ds) Info =
     (case addVariable D Info of Inl err \<Rightarrow> Inl err | Inr Info1 \<Rightarrow> addVariables Ds Info1)"

subsection \<open>ProgramInfo::seeFunctionDecl\<close>

text \<open>
  \<open>seeFunctionDecl\<close>: for a global function, \<open>ExternFunctions\<close> records whether a body has been
  seen for the name; the read \<open>ExternFunctions[Fname]\<close> creates the entry, without a body.
\<close>

fun seeFunctionDecl :: "DeclaratorDecl \<Rightarrow> ProgramInfo \<Rightarrow> ProgramInfo" where
  "seeFunctionDecl (FunctionDeclD Fname l rw R ps glob body fl proto) Info =
     (if \<not> glob then Info
      else if \<not> (case map_of (ExternFunctions Info) Fname of None \<Rightarrow> False | Some b \<Rightarrow> b)
      then Info\<lparr> ExternFunctions := mapSet Fname body (ExternFunctions Info) \<rparr>
      else Info)"
| "seeFunctionDecl D Info = Info"

section \<open>Root causes of wildness: ProgramInfo::computePointerDisjointSet\<close>

type_synonym CVars = "ConstraintKey set"

text \<open>
  What is recorded for an atom forced to \<open>Wild\<close> directly: the reason of the edge and,
  when the edge carries a valid one, its source location.
\<close>

record WildPointerInferenceInfo =
  WildPtrReason :: string
  WildPtrLoc :: "PersistentSourceLoc option"

record DisjointSet =
  Leaders :: "(ConstraintKey \<times> ConstraintKey) list"
  Groups :: "(ConstraintKey \<times> CVars) list"
  RealWildPtrsWithReasons :: "(ConstraintKey \<times> WildPointerInferenceInfo) list"
  AllWildPtrs :: CVars
  TotalNonDirectWildPointers :: CVars

text \<open>The state after \<open>ConstraintDisjointSet.Clear()\<close>.\<close>

definition ClearedDisjointSet :: DisjointSet where
  "ClearedDisjointSet = \<lparr> Leaders = [], Groups = [], RealWildPtrsWithReasons = [],
     AllWildPtrs = {}, TotalNonDirectWildPointers = {} \<rparr>"

text \<open>\<open>M.erase(k)\<close>, and the read \<open>Groups[k]\<close>, empty for a key without group.\<close>

definition mapErase :: "'k \<Rightarrow> ('k \<times> 'v) list \<Rightarrow> ('k \<times> 'v) list" where
  "mapErase k m = filter (\<lambda>p. fst p \<noteq> k) m"

definition groupOf :: "(ConstraintKey \<times> CVars) list \<Rightarrow> ConstraintKey \<Rightarrow> CVars" where
  "groupOf G k = (case map_of G k of None \<Rightarrow> {} | Some S \<Rightarrow> S)"

text \<open>Every key led by \<open>Old\<close> is led by \<open>New\<close>: the loop over \<open>CurrLeaders\<close>.\<close>

definition relabel :: "ConstraintKey \<Rightarrow> ConstraintKey \<Rightarrow> (ConstraintKey \<times> ConstraintKey) list \<Rightarrow>
    (ConstraintKey \<times> ConstraintKey) list" where
  "relabel Old New L = map (\<lambda>p. (fst p, if snd p = Old then New else snd p)) L"

text \<open>
  Modelled from the spec: the class \<open>DisjointSet\<close> with \<open>AddElements\<close> is declared outside
  the files at hand. The spec: a union-find over the ids of unknowns; a group is a set of
  ids with a chosen leader. \<open>AddElements a b\<close> puts \<open>a\<close> and \<open>b\<close> in one group: it merges
  their groups under the leader of \<open>a\<close>, adds the one without group to the group of the
  other, or opens a group led by \<open>a\<close>.
\<close>

definition AddElements :: "ConstraintKey \<Rightarrow> ConstraintKey \<Rightarrow> DisjointSet \<Rightarrow> DisjointSet" where
  "AddElements a b DS =
     (case (map_of (Leaders DS) a, map_of (Leaders DS) b) of
        (Some la, Some lb) \<Rightarrow>
          if la = lb then DS
          else DS\<lparr> Leaders := relabel lb la (Leaders DS),
                   Groups := mapErase lb
                     (mapSet la (groupOf (Groups DS) la \<union> groupOf (Groups DS) lb) (Groups DS)) \<rparr>
      | (Some la, None) \<Rightarrow>
          DS\<lparr> Leaders := mapSet b la (Leaders DS),
              Groups := mapSet la (insert b (groupOf (Groups DS) la)) (Groups DS) \<rparr>
      | (None, Some lb) \<Rightarrow>
          DS\<lparr> Leaders := mapSet a lb (Leaders DS),
              Groups := mapSet lb (insert a (groupOf (Groups DS) lb)) (Groups DS) \<rparr>
      | (None, None) \<Rightarrow>
          DS\<lparr> Leaders := mapSet b a (mapSet a a (Leaders DS)),
              Groups := mapSet a {a, b} (Groups DS) \<rparr>)"

text \<open>
  The update of \<open>RealWildPtrsWithReasons\<close> for an edge \<open>Geq(v, Wild)\<close>: the reason is
  overwritten, the location only by a valid one.
\<close>

definition recordWild :: "ConstraintKey \<Rightarrow> string \<Rightarrow> PersistentSourceLoc option \<Rightarrow>
    (ConstraintKey \<times> WildPointerInferenceInfo) list \<Rightarrow> (ConstraintKey \<times> WildPointerInferenceInfo) list" where
  "recordWild v rsn loc R =
     mapSet v \<lparr> WildPtrReason = rsn,
                WildPtrLoc = (case loc of Some l \<Rightarrow> Some l
                              | None \<Rightarrow> (case map_of R v of None \<Rightarrow> None | Some i \<Rightarrow> WildPtrLoc i)) \<rparr> R"

text \<open>
  The loop over the constraints, on the disjoint set and \<open>WildPtrs\<close>. The left side of a
  \<open>Geq\<close> is cast to \<open>VarAtom\<close> and dereferenced unchecked when the right side is \<open>Wild\<close> or
  an unknown: a constant there is the error \<open>NullDereference\<close>.
\<close>

fun scanConstraints :: "Constraint list \<Rightarrow> DisjointSet \<times> CVars \<Rightarrow> error + DisjointSet \<times> CVars" where
  "scanConstraints [] st = Inr st"
| "scanConstraints (Implies p c # cs) st = scanConstraints cs st"
| "scanConstraints (Geq lhs rhs rsn loc # cs) (DS, WildPtrs) =
     (if rhs = ConstantAtom WildAtom then
        (case lhs of
           VarAtom v \<Rightarrow>
             scanConstraints cs
               (DS\<lparr> RealWildPtrsWithReasons := recordWild v rsn loc (RealWildPtrsWithReasons DS) \<rparr>,
                insert v WildPtrs)
         | ConstantAtom c \<Rightarrow> Inl NullDereference)
      else
        (case rhs of
           VarAtom r \<Rightarrow>
             (case lhs of
                VarAtom v \<Rightarrow> scanConstraints cs (AddElements v r DS, WildPtrs)
              | ConstantAtom c \<Rightarrow> Inl NullDereference)
         | ConstantAtom c \<Rightarrow> scanConstraints cs (DS, WildPtrs)))"

text \<open>The adjustment of the leaders, for one directly forced atom \<open>RealCVar\<close>.\<close>

definition adjustLeader :: "ConstraintKey \<Rightarrow> DisjointSet \<Rightarrow> DisjointSet" where
  "adjustLeader RealCVar DS =
     (case map_of (Leaders DS) RealCVar of
        None \<Rightarrow> DS
      | Some OldGroupLeader \<Rightarrow>
          if map_of (RealWildPtrsWithReasons DS) OldGroupLeader = None then
            DS\<lparr> Leaders := relabel OldGroupLeader RealCVar (Leaders DS),
                Groups := mapErase OldGroupLeader
                  (mapSet RealCVar
                     (insert RealCVar (groupOf (Groups DS) RealCVar \<union> groupOf (Groups DS) OldGroupLeader))
                     (Groups DS)) \<rparr>
          else DS)"

text \<open>
  \<open>computePointerDisjointSet\<close>, up to the sets of indirectly and directly wild atoms (the
  map from atoms to source locations, filled from \<open>Variables\<close> for the report, is left
  aside).
\<close>

definition computePointerDisjointSet :: "Constraint list \<Rightarrow> error + DisjointSet" where
  "computePointerDisjointSet cs =
     (case scanConstraints cs (ClearedDisjointSet, {}) of
        Inl err \<Rightarrow> Inl err
      | Inr (DS, WildPtrs) \<Rightarrow>
          (let DS1 = foldl (\<lambda>acc RealCVar. adjustLeader RealCVar acc) DS
                       (map fst (RealWildPtrsWithReasons DS));
               Total = \<Union> (snd ` {Gm \<in> set (Groups DS1).
                          map_of (RealWildPtrsWithReasons DS1) (fst Gm) \<noteq> None})
           in Inr (DS1\<lparr> TotalNonDirectWildPointers := Total - WildPtrs,
                         AllWildPtrs := \<Union> ((\<lambda>G. snd G \<inter> WildPtrs) ` set (Groups DS1)) \<rparr>)))"

text \<open>The atoms forced to \<open>Wild\<close> directly: the left sides of the edges \<open>Geq(v, Wild)\<close>.\<close>

fun directWild :: "Constraint list \<Rightarrow> CVars" where
  "directWild [] = {}"
| "directWild (c # cs) =
     (case c of
        Geq (VarAtom v) (ConstantAtom WildAtom) rsn loc \<Rightarrow> insert v (directWild cs)
      | _ \<Rightarrow> directWild cs)"

text \<open>Two atoms are in one group when they have the same leader.\<close>

definition sameGroup :: "DisjointSet \<Rightarrow> ConstraintKey \<Rightarrow> ConstraintKey \<Rightarrow> bool" where
  "sameGroup DS x y = (\<exists>l. map_of (Leaders DS) x = Some l \<and> map_of (Leaders DS) y = Some l)"

text \<open>
  The representation invariant of the disjoint set: the maps are in the order of their
  keys, an atom has leader \<open>l\<close> exactly when it is a member of the group of \<open>l\<close>, and a
  leader is a member of its group. An atom is led by a directly forced atom when its
  leader has a recorded reason.
\<close>

definition strictKeys :: "('k::linorder \<times> 'v) list \<Rightarrow> bool" where
  "strictKeys m = sorted_wrt (<) (map fst m)"

definition wfDS :: "DisjointSet \<Rightarrow> bool" where
  "wfDS DS = (strictKeys (Leaders DS) \<and> strictKeys (Groups DS) \<and>
     (\<forall>k l. (map_of (Leaders DS) k = Some l) = (\<exists>S. map_of (Groups DS) l = Some S \<and> k \<in> S)) \<and>
     (\<forall>l S. map_of (Groups DS) l = Some S \<longrightarrow> l \<in> S))"

definition wildLed :: "DisjointSet \<Rightarrow> ConstraintKey \<Rightarrow> bool" where
  "wildLed DS w = (\<exists>l. map_of (Leaders DS) w = Some l \<and> map_of (RealWildPtrsWithReasons DS) l \<noteq> None)"

section \<open>The expression constraint resolver (ConstraintResolver.cpp)\<close>

text \<open>
  What the resolver takes from its surroundings, as parameters: from the front end, whether
  an expression is a null pointer constant (\<open>isNULLExpression\<close>), whether a cast between
  two types is safe (\<open>isCastSafe\<close>), the value of an integer constant expression
  (\<open>evaluateToInt\<close>), whether the rewriter can rewrite at an expression
  (\<open>isRewritableExpr\<close>), the persistent location of an expression and the spelling of a
  type; from the analysis, \<open>constrainConsVarGeq\<close>, the option \<open>AllocatorFunctions\<close> and the
  context sensitive bounds key of a call. None of them is defined in the files at hand.

  Modelled from the spec: \<open>Info_getVariable\<close> stands for \<open>ProgramInfo::getVariable\<close>, which for an
  identifier returns the declaration's existing constraint variable.
\<close>

record ResolverEnv =
  isNULLExpression :: "Expr \<Rightarrow> bool"
  isCastSafe :: "QualType \<Rightarrow> QualType \<Rightarrow> bool"
  evaluateToInt :: "Expr \<Rightarrow> int option"
  isRewritableExpr :: "Expr \<Rightarrow> bool"
  exprPSL :: "Expr \<Rightarrow> PersistentSourceLoc"
  getAsString :: "QualType \<Rightarrow> string"
  Info_getVariable :: "Decl \<Rightarrow> ConstraintVariable option"
  constrainConsVarGeq :: ConsVarGeq
  AllocatorFunctions :: "string list"
  getContextSensitiveBoundsKey :: "ExprId \<Rightarrow> BoundsKey \<Rightarrow> BoundsKey"

type_synonym CSetBkeyPair = "ConstraintVariable list \<times> BoundsKey list"

type_synonym 'a resolved = "error + 'a \<times> ProgramInfo"

text \<open>
  Modelled from the spec: the expression cache of \<open>ProgramInfo\<close>
  (\<open>hasPersistentConstraints\<close>, \<open>getPersistentConstraints\<close>, \<open>storePersistentConstraints\<close>) is
  not among the files at hand. The spec: results are memoized, cached by node identity.
\<close>

definition hasPersistentConstraints :: "Expr \<Rightarrow> ProgramInfo \<Rightarrow> bool" where
  "hasPersistentConstraints E Info = (PersistentConstraints Info (exprId E) \<noteq> None)"

definition getPersistentConstraints :: "Expr \<Rightarrow> ProgramInfo \<Rightarrow> CSetBkeyPair" where
  "getPersistentConstraints E Info =
     (case PersistentConstraints Info (exprId E) of None \<Rightarrow> ([], []) | Some r \<Rightarrow> r)"

definition storePersistentConstraints :: "Expr \<Rightarrow> CSetBkeyPair \<Rightarrow> ProgramInfo \<Rightarrow> ProgramInfo" where
  "storePersistentConstraints E Ret Info =
     Info\<lparr> PersistentConstraints := (PersistentConstraints Info)(exprId E \<mapsto> Ret) \<rparr>"

text \<open>
  Modelled from the spec: the distinguished variables of \<open>PVConstraint\<close>. A value of
  non-pointer type is the "no indirection" marker, a variable without atoms; the \<open>Wild\<close>
  variable has the constant \<open>Wild\<close> as its only atom; the default function variable has
  neither return nor parameters.
\<close>

definition getWildPVConstraint :: ConstraintVariable where
  "getWildPVConstraint = PVC (MkPV [ConstantAtom WildAtom] ''wildvar'' None False None False None False)"

definition getNamedNonPtrPVConstraint :: "string \<Rightarrow> ConstraintVariable" where
  "getNamedNonPtrPVConstraint n = PVC (MkPV [] n None False None False None False)"

definition getNonPtrPVConstraint :: ConstraintVariable where
  "getNonPtrPVConstraint = getNamedNonPtrPVConstraint ''basevar''"

definition defaultFVConstraint :: FVConstraint where
  "defaultFVConstraint = MkFV [] [] [] False False"

text \<open>\<open>PVConstraintFromType\<close>; for a type that is neither it only prints a warning.\<close>

definition PVConstraintFromType :: "QualType \<Rightarrow> ConstraintVariable list" where
  "PVConstraintFromType TypE =
     (if isRecordType TypE \<or> isArithmeticType TypE then [getNonPtrPVConstraint]
      else if isPointerType TypE then [getWildPVConstraint]
      else [])"

text \<open>
  Modelled from the spec: \<open>constrainOuterTo\<close> constrains the outermost atom of a variable by
  a constant, as a lower bound (\<open>doLB\<close>) or as an upper bound, by one unconditional edge; a
  variable whose outermost atom is a constant gets none.
\<close>

definition constrainOuterTo :: "PVConstraint \<Rightarrow> ConstAtom \<Rightarrow> bool \<Rightarrow> Constraint list \<Rightarrow> Constraint list" where
  "constrainOuterTo P C doLB cs =
     (case pvVars P of
        VarAtom v # rest \<Rightarrow>
          addConstraint (if doLB then Geq (VarAtom v) (ConstantAtom C) [] None
                         else Geq (ConstantAtom C) (VarAtom v) [] None) cs
      | _ \<Rightarrow> cs)"

text \<open>
  Modelled from the spec: \<open>getCopy\<close> produces an independent variable with a fresh unknown
  for every unknown of the original; constants are shared with the original (as the
  comment at the call site says). The edges to the original are added by the caller.
\<close>

fun copyAtoms :: "Atom list \<Rightarrow> ConstraintKey \<Rightarrow> Atom list \<times> ConstraintKey" where
  "copyAtoms [] k = ([], k)"
| "copyAtoms (VarAtom v # as) k = (case copyAtoms as (Suc k) of (bs, k') \<Rightarrow> (VarAtom k # bs, k'))"
| "copyAtoms (ConstantAtom c # as) k = (case copyAtoms as k of (bs, k') \<Rightarrow> (ConstantAtom c # bs, k'))"

fun copyPV :: "PVConstraint \<Rightarrow> ConstraintKey \<Rightarrow> PVConstraint \<times> ConstraintKey"
  and copyFV :: "FVConstraint \<Rightarrow> ConstraintKey \<Rightarrow> FVConstraint \<times> ConstraintKey"
  and copyCV :: "ConstraintVariable \<Rightarrow> ConstraintKey \<Rightarrow> ConstraintVariable \<times> ConstraintKey"
  and copyCVs :: "ConstraintVariable list \<Rightarrow> ConstraintKey \<Rightarrow> ConstraintVariable list \<times> ConstraintKey"
  and copyCVss :: "ConstraintVariable list list \<Rightarrow> ConstraintKey \<Rightarrow>
        ConstraintVariable list list \<times> ConstraintKey" where
  "copyPV (MkPV vs n fv a it oc bk g) k =
     (case copyAtoms vs k of (ws, k1) \<Rightarrow>
        (case fv of
           None \<Rightarrow> (MkPV ws n None a it oc bk g, k1)
         | Some F \<Rightarrow> (case copyFV F k1 of (F', k2) \<Rightarrow> (MkPV ws n (Some F') a it oc bk g, k2))))"
| "copyFV (MkFV n rets params b p) k =
     (case copyCVs rets k of (rets', k1) \<Rightarrow>
        (case copyCVss params k1 of (params', k2) \<Rightarrow> (MkFV n rets' params' b p, k2)))"
| "copyCV (PVC P) k = (case copyPV P k of (P', k') \<Rightarrow> (PVC P', k'))"
| "copyCV (FVC F) k = (case copyFV F k of (F', k') \<Rightarrow> (FVC F', k'))"
| "copyCVs [] k = ([], k)"
| "copyCVs (c # cs) k =
     (case copyCV c k of (c', k1) \<Rightarrow> (case copyCVs cs k1 of (cs', k2) \<Rightarrow> (c' # cs', k2)))"
| "copyCVss [] k = ([], k)"
| "copyCVss (cs # css) k =
     (case copyCVs cs k of (cs', k1) \<Rightarrow> (case copyCVss css k1 of (css', k2) \<Rightarrow> (cs' # css', k2)))"

definition getCopy :: "ConstraintVariable \<Rightarrow> ProgramInfo \<Rightarrow> ConstraintVariable \<times> ProgramInfo" where
  "getCopy CV Info = (case copyCV CV (nextVar Info) of (CV', k) \<Rightarrow> (CV', Info\<lparr> nextVar := k \<rparr>))"

text \<open>\<open>handleDeref\<close>: every variable loses its outermost atom; one left without atoms is
  dropped. A function variable fails the assertion.\<close>

fun handleDeref :: "ConstraintVariable list \<Rightarrow> error + ConstraintVariable list" where
  "handleDeref [] = Inr []"
| "handleDeref (FVC F # T) = Inl AssertionFailed"
| "handleDeref (PVC PVC0 # T) =
     (case handleDeref T of
        Inl err \<Rightarrow> Inl err
      | Inr tmp \<Rightarrow>
          (case pvVars PVC0 of
             [] \<Rightarrow> Inr tmp
           | A # C \<Rightarrow>
               if C \<noteq> [] then
                 Inr (List.insert (PVC (MkPV C (pvName PVC0) (pvFV PVC0) (pvArrPresent PVC0)
                                         (pvItype PVC0) False None False)) tmp)
               else Inr tmp))"

text \<open>\<open>addAtom\<close> and \<open>addAtomAll\<close>: one more level of indirection, a fresh unknown named
  after the variable and constrained by \<open>PtrTyp\<close> from below.\<close>

definition addAtom :: "PVConstraint \<Rightarrow> ConstAtom \<Rightarrow> ProgramInfo \<Rightarrow> PVConstraint \<times> ProgramInfo" where
  "addAtom PVC0 PtrTyp Info =
     (let NewA = VarAtom (nextVar Info);
          C = pvVars PVC0;
          cs1 = (case C of
                   VarAtom VA # rest \<Rightarrow>
                     addConstraint (Implies (Geq NewA (ConstantAtom WildAtom) [] None)
                                            (Geq (VarAtom VA) (ConstantAtom WildAtom) [] None)) (CS Info)
                 | _ \<Rightarrow> CS Info);
          TmpPV = MkPV (NewA # C) (pvName PVC0) (pvFV PVC0) (pvArrPresent PVC0) (pvItype PVC0)
                    False None False
      in (TmpPV, Info\<lparr> nextVar := Suc (nextVar Info), CS := constrainOuterTo TmpPV PtrTyp True cs1 \<rparr>))"

fun addAtomAll :: "ConstraintVariable list \<Rightarrow> ConstAtom \<Rightarrow> ProgramInfo \<Rightarrow>
    ConstraintVariable list \<times> ProgramInfo" where
  "addAtomAll [] PtrTyp Info = ([], Info)"
| "addAtomAll (PVC P # CVS) PtrTyp Info =
     (case addAtom P PtrTyp Info of (temp, Info1) \<Rightarrow>
        (case addAtomAll CVS PtrTyp Info1 of (Result, Info2) \<Rightarrow> (List.insert (PVC temp) Result, Info2)))"
| "addAtomAll (FVC F # CVS) PtrTyp Info =
     (case addAtomAll CVS PtrTyp Info of (Result, Info1) \<Rightarrow> (List.insert (FVC F) Result, Info1))"

text \<open>
  Modelled from the spec: \<open>isFunctionAllocator\<close> is declared outside the files at hand; the
  recognized allocators of the spec are \<open>malloc\<close>, \<open>calloc\<close> and \<open>realloc\<close>.
\<close>

definition isFunctionAllocator :: "string \<Rightarrow> bool" where
  "isFunctionAllocator n = (n = ''malloc'' \<or> n = ''calloc'' \<or> n = ''realloc'')"

fun isBinaryOperator :: "Expr \<Rightarrow> (BinaryOperatorKind \<times> Expr \<times> Expr) option" where
  "isBinaryOperator (BinaryOperator i T opc L R) = Some (opc, L, R)"
| "isBinaryOperator e = None"

text \<open>
  \<open>analyzeAllocExpr\<close>: the class of the pointer an allocator call returns together with the
  type under \<open>sizeof\<close>; \<open>Inr None\<close> is the null result, \<open>Inl\<close> a failed assertion
  (\<open>getArg\<close> out of range, or a name that is none of the allocators).
\<close>

definition analyzeAllocExpr :: "ResolverEnv \<Rightarrow> Expr list \<Rightarrow> string \<Rightarrow> error + (ConstAtom \<times> QualType) option" where
  "analyzeAllocExpr env args FuncName =
     (if FuncName = ''calloc'' then
        (if length args \<le> 1 then Inl AssertionFailed
         else
           (case getSizeOfArg (args ! 1) of
              None \<Rightarrow> Inr None
            | Some ArgTy \<Rightarrow>
                if evaluateToInt env (args ! 0) = Some 1 then Inr (Some (PtrAtom, ArgTy))
                else Inr (Some (ArrAtom, ArgTy))))
      else
        (let idx = (if FuncName \<in> set (AllocatorFunctions env) \<or> FuncName = ''malloc'' then Some 0
                    else if FuncName = ''realloc'' then Some 1 else None)
         in case idx of
              None \<Rightarrow> Inl AssertionFailed
            | Some n \<Rightarrow>
                if n \<ge> length args then Inl AssertionFailed
                else
                  (let E = IgnoreParenImpCasts (args ! n)
                   in case isBinaryOperator E of
                        Some (opc, L, R) \<Rightarrow>
                          if isMultiplicativeOp opc then
                            (case List.find (\<lambda>Op. getSizeOfArg Op \<noteq> None) [L, R] of
                               Some Op \<Rightarrow> Inr (map_option (\<lambda>T. (ArrAtom, T)) (getSizeOfArg Op))
                             | None \<Rightarrow> Inr None)
                          else Inr (map_option (\<lambda>T. (PtrAtom, T)) (getSizeOfArg E))
                      | None \<Rightarrow> Inr (map_option (\<lambda>T. (PtrAtom, T)) (getSizeOfArg E)))))"

text \<open>\<open>getInvalidCastPVCons\<close>: the cached variables of the node, or a new variable of the
  node's type constrained to \<open>Wild\<close> and stored for the node.\<close>

fun castSubExprType :: "Expr \<Rightarrow> QualType" where
  "castSubExprType (ImplicitCastExpr i T e) = getType e"
| "castSubExprType (CStyleCastExpr i T e) = getType e"
| "castSubExprType e = getType e"

definition getInvalidCastPVCons :: "ResolverEnv \<Rightarrow> Expr \<Rightarrow> ProgramInfo \<Rightarrow>
    ConstraintVariable list \<times> ProgramInfo" where
  "getInvalidCastPVCons env E Info =
     (if hasPersistentConstraints E Info then (fst (getPersistentConstraints E Info), Info)
      else
        (case newPVConstraint (getType E) ''Invalid cast'' (nextVar Info) of
           (P, k) \<Rightarrow>
             (let Rsn = ''Cast from '' @ getAsString env (castSubExprType E) @ '' to '' @
                        getAsString env (getType E);
                  Info1 = Info\<lparr> nextVar := k,
                            CS := constrainToWild (PVC P) Rsn (Some (exprPSL env E)) (CS Info) \<rparr>
              in ([PVC P], storePersistentConstraints E ([PVC P], []) Info1))))"

text \<open>
  \<open>getRewritablePVConstraint\<close>: a new variable of the node's type, constrained to \<open>Wild\<close>
  when the node is inside a macro. Modelled from the spec: \<open>constrainWildIfMacro\<close>, defined
  outside the files at hand, is \<open>constrainToWild\<close> under that condition.
\<close>

definition getRewritablePVConstraint :: "ResolverEnv \<Rightarrow> Expr \<Rightarrow> string \<Rightarrow> ProgramInfo \<Rightarrow>
    PVConstraint \<times> ProgramInfo" where
  "getRewritablePVConstraint env E StmtClassName Info =
     (case newPVConstraint (getType E) StmtClassName (nextVar Info) of
        (P, k) \<Rightarrow>
          (P, Info\<lparr> nextVar := k,
                   CS := (if \<not> isRewritableExpr env E
                          then constrainToWild (PVC P) ''Pointer in Macro declaration.'' None (CS Info)
                          else CS Info) \<rparr>))"

fun setBoundsKey :: "PVConstraint \<Rightarrow> BoundsKey option \<Rightarrow> PVConstraint" where
  "setBoundsKey (MkPV vs n fv a it oc bk g) bk' = MkPV vs n fv a it oc bk' g"

fun setIsGeneric :: "PVConstraint \<Rightarrow> bool \<Rightarrow> PVConstraint" where
  "setIsGeneric (MkPV vs n fv a it oc bk g) g' = MkPV vs n fv a it oc bk g'"

text \<open>The return variables of the variables a callee expression resolved to.\<close>

fun calleeReturnVars :: "ConstraintVariable list \<Rightarrow> ConstraintVariable list" where
  "calleeReturnVars [] = []"
| "calleeReturnVars (FVC FV # Cs) = List.union (fvReturnVars FV) (calleeReturnVars Cs)"
| "calleeReturnVars (PVC PV # Cs) =
     (case pvFV PV of
        Some FV \<Rightarrow> List.union (fvReturnVars FV) (calleeReturnVars Cs)
      | None \<Rightarrow> calleeReturnVars Cs)"

text \<open>
  The loop that copies the return variables of a call: a variable that had a checked type
  in the input is built anew from the type of the call, any other is copied; the copy is
  linked to the original with \<open>Safe_to_Wild\<close>, and with \<open>Wild_to_Safe\<close> to the first
  argument of \<open>realloc\<close>.
\<close>

definition copyReturnVar :: "ResolverEnv \<Rightarrow> ExprId \<Rightarrow> QualType \<Rightarrow> ConstraintVariable list \<Rightarrow>
    ConstraintVariable \<Rightarrow> ProgramInfo \<Rightarrow> ConstraintVariable \<times> ProgramInfo" where
  "copyReturnVar env CE CEType ReallocFlow CV Info =
     (case (case CV of
              PVC PCV \<Rightarrow>
                if pvOriginallyChecked PCV then
                  (case newPVConstraint CEType (pvName PCV) (nextVar Info) of
                     (N, k) \<Rightarrow>
                       (PVC (if pvBoundsKey PCV \<noteq> None
                             then setBoundsKey (setIsGeneric N (pvIsGeneric PCV)) (pvBoundsKey PCV)
                             else setIsGeneric N (pvIsGeneric PCV)),
                        Info\<lparr> nextVar := k \<rparr>))
                else getCopy CV Info
            | FVC F \<Rightarrow> getCopy CV Info) of
        (NewCV0, Info1) \<Rightarrow>
          (let NewCV = (case NewCV0 of
                          PVC N \<Rightarrow>
                            (case pvBoundsKey N of
                               Some bk \<Rightarrow> PVC (setBoundsKey N (Some (getContextSensitiveBoundsKey env CE bk)))
                             | None \<Rightarrow> NewCV0)
                        | FVC F \<Rightarrow> NewCV0);
               cs1 = addConstraints (constrainConsVarGeq env [NewCV] [CV] None Safe_to_Wild False) (CS Info1);
               cs2 = (if ReallocFlow \<noteq> []
                      then addConstraints (constrainConsVarGeq env [NewCV] ReallocFlow None Wild_to_Safe False) cs1
                      else cs1)
           in (NewCV, Info1\<lparr> CS := cs2 \<rparr>)))"

fun copyReturnVars :: "ResolverEnv \<Rightarrow> ExprId \<Rightarrow> QualType \<Rightarrow> ConstraintVariable list \<Rightarrow>
    ConstraintVariable list \<Rightarrow> ProgramInfo \<Rightarrow> ConstraintVariable list \<times> ProgramInfo" where
  "copyReturnVars env CE CEType ReallocFlow [] Info = ([], Info)"
| "copyReturnVars env CE CEType ReallocFlow (CV # ReturnCVs) Info =
     (case copyReturnVar env CE CEType ReallocFlow CV Info of
        (NewCV, Info1) \<Rightarrow>
          (case copyReturnVars env CE CEType ReallocFlow ReturnCVs Info1 of
             (TmpCVs, Info2) \<Rightarrow> (List.insert NewCV TmpCVs, Info2)))"

text \<open>The check of the cache, and the store of the result, around the resolution of a
  node of the cached kinds.\<close>

definition cachedOr :: "Expr \<Rightarrow> ProgramInfo \<Rightarrow> CSetBkeyPair resolved \<Rightarrow> CSetBkeyPair resolved" where
  "cachedOr E Info body =
     (if hasPersistentConstraints E Info then Inr (getPersistentConstraints E Info, Info)
      else
        (case body of
           Inl err \<Rightarrow> Inl err
         | Inr (Ret, Info1) \<Rightarrow> Inr (Ret, storePersistentConstraints E Ret Info1)))"

definition isNonPointerType :: "QualType \<Rightarrow> bool" where
  "isNonPointerType TypE = (isRecordType TypE \<or> isArithmeticType TypE)"

definition isDeclaratorDecl :: "Decl \<Rightarrow> bool" where
  "isDeclaratorDecl D = (declKind D \<noteq> OtherDeclKind)"

text \<open>
  \<open>getExprConstraintVars\<close>. The type \<open>TypE\<close> is the type of the node as it was handed over,
  before its parentheses are ignored; every recursive call hands over a sub-expression
  with that sub-expression's type. A statement expression carries the expression its
  block ends in; when it ends in none the node is stored with the empty result.
\<close>

function getExprConstraintVarsAt :: "ResolverEnv \<Rightarrow> QualType \<Rightarrow> Expr \<Rightarrow> ProgramInfo \<Rightarrow> CSetBkeyPair resolved"
  and getAllSubExprConstraintVars :: "ResolverEnv \<Rightarrow> Expr list \<Rightarrow> ProgramInfo \<Rightarrow> CSetBkeyPair resolved" where
  "getExprConstraintVarsAt env TypE (ParenExpr i T e) Info = getExprConstraintVarsAt env TypE e Info"
| "getExprConstraintVarsAt env TypE (DeclRefExpr i T d) Info =
     (if isNonPointerType TypE then
        (if isNonPointerType T then Inr (([getNamedNonPtrPVConstraint (declName d)], []), Info)
         else Inl AssertionFailed)
      else if isNULLExpression env (DeclRefExpr i T d) then Inr (([], []), Info)
      else
        (case Info_getVariable env d of
           None \<Rightarrow> Inl AssertionFailed
         | Some CV \<Rightarrow> Inr (([CV], []), Info)))"
| "getExprConstraintVarsAt env TypE (MemberExpr i T b d) Info =
     (if isNonPointerType TypE then Inr ((PVConstraintFromType TypE, []), Info)
      else if isNULLExpression env (MemberExpr i T b d) then Inr (([], []), Info)
      else
        (case Info_getVariable env d of
           None \<Rightarrow> Inl AssertionFailed
         | Some CV \<Rightarrow> Inr (([CV], []), Info)))"
| "getExprConstraintVarsAt env TypE (ImplicitCastExpr i T sub) Info =
     (if isNonPointerType TypE then Inr ((PVConstraintFromType TypE, []), Info)
      else if isNULLExpression env (ImplicitCastExpr i T sub) then Inr (([], []), Info)
      else
        (case getExprConstraintVarsAt env (getType sub) sub Info of
           Inl err \<Rightarrow> Inl err
         | Inr (CVs, Info1) \<Rightarrow>
             if isPointerType TypE \<and>
                \<not> (isFunctionType (getType sub) \<or> isArrayType (getType sub) \<or> isVoidPointerType (getType sub)) \<and>
                \<not> isCastSafe env TypE (getType sub)
             then
               (case getInvalidCastPVCons env (ImplicitCastExpr i T sub)
                       (Info1\<lparr> CS := constrainAllToWild (fst CVs)
                                 (''Cast from '' @ getAsString env (getType sub) @ '' to '' @ getAsString env TypE)
                                 (Some (exprPSL env (ImplicitCastExpr i T sub))) (CS Info1) \<rparr>) of
                  (Ret, Info2) \<Rightarrow> Inr ((Ret, []), Info2))
             else Inr (CVs, Info1)))"
| "getExprConstraintVarsAt env TypE (CHKCBindTemporaryExpr i T sub) Info =
     (if isNonPointerType TypE then Inr ((PVConstraintFromType TypE, []), Info)
      else if isNULLExpression env (CHKCBindTemporaryExpr i T sub) then Inr (([], []), Info)
      else getExprConstraintVarsAt env (getType sub) sub Info)"
| "getExprConstraintVarsAt env TypE (CStyleCastExpr i T TmpE) Info =
     (if isNonPointerType TypE then Inr ((PVConstraintFromType TypE, []), Info)
      else cachedOr (CStyleCastExpr i T TmpE) Info
        (if T \<noteq> TypE then Inl AssertionFailed
         else if \<not> isNULLExpression env (CStyleCastExpr i T TmpE) \<and> isPointerType TypE \<and>
                 \<not> isCastSafe env TypE (getType TmpE)
         then
           (case getInvalidCastPVCons env (CStyleCastExpr i T TmpE) Info of
              (Ret, Info1) \<Rightarrow> Inr ((Ret, []), Info1))
         else
           (case getExprConstraintVarsAt env (getType TmpE) TmpE Info of
              Inl err \<Rightarrow> Inl err
            | Inr (Vars, Info1) \<Rightarrow>
                (case getRewritablePVConstraint env (CStyleCastExpr i T TmpE) ''CStyleCastExpr'' Info1 of
                   (P, Info2) \<Rightarrow>
                     Inr (([PVC P], []),
                          if \<not> isNULLExpression env (CStyleCastExpr i T TmpE)
                          then Info2\<lparr> CS := addConstraints
                                   (constrainConsVarGeq env [PVC P] (fst Vars)
                                      (Some (exprPSL env (CStyleCastExpr i T TmpE))) Same_to_Same False)
                                   (CS Info2) \<rparr>
                          else Info2)))))"
| "getExprConstraintVarsAt env TypE (BinaryOperator i T opc L R) Info =
     (if isNonPointerType TypE then Inr ((PVConstraintFromType TypE, []), Info)
      else if isNULLExpression env (BinaryOperator i T opc L R) then Inr (([], []), Info)
      else cachedOr (BinaryOperator i T opc L R) Info
        (if opc \<in> {BO_Assign, BO_AddAssign, BO_SubAssign} then getExprConstraintVarsAt env (getType L) L Info
         else if opc = BO_Comma then getExprConstraintVarsAt env (getType R) R Info
         else if opc \<in> {BO_Add, BO_Sub} then
           (if isPointerType (getType L) then getExprConstraintVarsAt env (getType L) L Info
            else if isPointerType (getType R) then getExprConstraintVarsAt env (getType R) R Info
            else Inr ((PVConstraintFromType TypE, []), Info))
         else if opc \<in> {BO_PtrMemD, BO_PtrMemI} then Inl AssertionFailed
         else Inr ((PVConstraintFromType TypE, []), Info)))"
| "getExprConstraintVarsAt env TypE (ArraySubscriptExpr i T Base Idx) Info =
     (if isNonPointerType TypE then Inr ((PVConstraintFromType TypE, []), Info)
      else if isNULLExpression env (ArraySubscriptExpr i T Base Idx) then Inr (([], []), Info)
      else cachedOr (ArraySubscriptExpr i T Base Idx) Info
        (case getExprConstraintVarsAt env (getType Base) Base Info of
           Inl err \<Rightarrow> Inl err
         | Inr (T1, Info1) \<Rightarrow>
             (case handleDeref (fst T1) of
                Inl err \<Rightarrow> Inl err
              | Inr tmp \<Rightarrow> Inr ((tmp, snd T1), Info1))))"
| "getExprConstraintVarsAt env TypE (UnaryOperator i T opc UOExpr) Info =
     (if isNonPointerType TypE then Inr ((PVConstraintFromType TypE, []), Info)
      else if isNULLExpression env (UnaryOperator i T opc UOExpr) then Inr (([], []), Info)
      else cachedOr (UnaryOperator i T opc UOExpr) Info
        (if opc = UO_AddrOf then
           (case IgnoreParenImpCasts UOExpr of
              UnaryOperator j U opc2 SubE \<Rightarrow>
                if opc2 = UO_Deref then getExprConstraintVarsAt env (getType SubE) SubE Info
                else Inr (([], []), Info)
            | ArraySubscriptExpr j U Base Idx \<Rightarrow> getExprConstraintVarsAt env (getType Base) Base Info
            | _ \<Rightarrow>
                (case getExprConstraintVarsAt env (getType (IgnoreParenImpCasts UOExpr))
                        (IgnoreParenImpCasts UOExpr) Info of
                   Inl err \<Rightarrow> Inl err
                 | Inr (T1, Info1) \<Rightarrow>
                     if fst T1 = [] then Inl AssertionFailed
                     else
                       (case addAtomAll (fst T1) PtrAtom Info1 of
                          (Res, Info2) \<Rightarrow> Inr ((Res, snd T1), Info2))))
         else if opc = UO_Deref then
           (case getExprConstraintVarsAt env (getType UOExpr) UOExpr Info of
              Inl err \<Rightarrow> Inl err
            | Inr (T1, Info1) \<Rightarrow>
                (case handleDeref (fst T1) of
                   Inl err \<Rightarrow> Inl err
                 | Inr tmp \<Rightarrow> Inr ((tmp, snd T1), Info1)))
         else if opc \<in> {UO_PostInc, UO_PostDec, UO_PreInc, UO_PreDec} then
           getExprConstraintVarsAt env (getType UOExpr) UOExpr Info
         else if opc \<in> {UO_Plus, UO_Minus, UO_LNot, UO_Not} then Inr ((PVConstraintFromType TypE, []), Info)
         else Inl AssertionFailed))"
| "getExprConstraintVarsAt env TypE (CallExpr i T CalledExpr D args) Info =
     (if isNonPointerType TypE then Inr ((PVConstraintFromType TypE, []), Info)
      else if isNULLExpression env (CallExpr i T CalledExpr D args) then Inr (([], []), Info)
      else cachedOr (CallExpr i T CalledExpr D args) Info
        (case
           (case D of
              None \<Rightarrow>
                (case getExprConstraintVarsAt env (getType CalledExpr) CalledExpr Info of
                   Inl err \<Rightarrow> Inl err
                 | Inr (tmp, Info1) \<Rightarrow> Inr ((calleeReturnVars (fst tmp), snd tmp, []), Info1))
            | Some FD \<Rightarrow>
                if \<not> isDeclaratorDecl FD then Inl Unreachable
                else if isFunctionAllocator (declName FD) then
                  (if args = [] then Inr (([getWildPVConstraint], [], []), Info)
                   else
                     (case analyzeAllocExpr env args (declName FD) of
                        Inl err \<Rightarrow> Inl err
                      | Inr None \<Rightarrow> Inr (([getWildPVConstraint], [], []), Info)
                      | Inr (Some (A, ArgTy)) \<Rightarrow>
                          (case newPVConstraint (PointerTy ArgTy) (''&'' @ declName FD) (nextVar Info) of
                             (PVC0, k) \<Rightarrow>
                               (let Info1 = Info\<lparr> nextVar := k,
                                             CS := constrainOuterTo (setIsGeneric PVC0 True) A True (CS Info) \<rparr>
                                in if declName FD = ''realloc'' then
                                     (case getExprConstraintVarsAt env (getType (IgnoreParenImpCasts (hd args)))
                                             (IgnoreParenImpCasts (hd args)) Info1 of
                                        Inl err \<Rightarrow> Inl err
                                      | Inr (RF, Info2) \<Rightarrow>
                                          Inr (([PVC (setIsGeneric PVC0 True)], [], fst RF), Info2))
                                   else Inr (([PVC (setIsGeneric PVC0 True)], [], []), Info1)))))
                else
                  (case Info_getVariable env FD of
                     None \<Rightarrow> Inl AssertionFailed
                   | Some (FVC FVC0) \<Rightarrow> Inr ((fvReturnVars FVC0, [], []), Info)
                   | Some (PVC tmp) \<Rightarrow>
                       (case pvFV tmp of
                          Some FVC0 \<Rightarrow> Inr ((fvReturnVars FVC0, [], []), Info)
                        | None \<Rightarrow> Inr (([FVC defaultFVConstraint], [], []), Info)))) of
           Inl err \<Rightarrow> Inl err
         | Inr ((ReturnCVs, ReturnBSet, ReallocFlow), Info1) \<Rightarrow>
             (case copyReturnVars env i T ReallocFlow ReturnCVs Info1 of
                (TmpCVs, Info2) \<Rightarrow> Inr ((TmpCVs, ReturnBSet), Info2))))"
| "getExprConstraintVarsAt env TypE (ConditionalOperator i T C L R) Info =
     (if isNonPointerType TypE then Inr ((PVConstraintFromType TypE, []), Info)
      else if isNULLExpression env (ConditionalOperator i T C L R) then Inr (([], []), Info)
      else cachedOr (ConditionalOperator i T C L R) Info
        (case getExprConstraintVarsAt env (getType L) L Info of
           Inl err \<Rightarrow> Inl err
         | Inr (LCons, Info1) \<Rightarrow>
             (case getExprConstraintVarsAt env (getType R) R Info1 of
                Inl err \<Rightarrow> Inl err
              | Inr (RCons, Info2) \<Rightarrow>
                  Inr ((List.union (fst LCons) (fst RCons), List.union (snd LCons) (snd RCons)), Info2))))"
| "getExprConstraintVarsAt env TypE (InitListExpr i T SubExprs) Info =
     (if isNonPointerType TypE then Inr ((PVConstraintFromType TypE, []), Info)
      else if isNULLExpression env (InitListExpr i T SubExprs) then Inr (([], []), Info)
      else cachedOr (InitListExpr i T SubExprs) Info
        (case getAllSubExprConstraintVars env SubExprs Info of
           Inl err \<Rightarrow> Inl err
         | Inr (CVars, Info1) \<Rightarrow>
             if isArrayType T then
               (case addAtomAll (fst CVars) ArrAtom Info1 of
                  (Res, Info2) \<Rightarrow> Inr ((Res, snd CVars), Info2))
             else if isPointerType T then Inr (CVars, Info1)
             else Inl AssertionFailed))"
| "getExprConstraintVarsAt env TypE (CompoundLiteralExpr i T Init) Info =
     (if isNonPointerType TypE then Inr ((PVConstraintFromType TypE, []), Info)
      else if isNULLExpression env (CompoundLiteralExpr i T Init) then Inr (([], []), Info)
      else cachedOr (CompoundLiteralExpr i T Init) Info
        (case getExprConstraintVarsAt env (getType Init) Init Info of
           Inl err \<Rightarrow> Inl err
         | Inr (Vars, Info1) \<Rightarrow>
             (case getRewritablePVConstraint env (CompoundLiteralExpr i T Init) ''CompoundLiteralExpr'' Info1 of
                (P, Info2) \<Rightarrow>
                  Inr (([PVC P], snd Vars),
                       Info2\<lparr> CS := addConstraints
                                (constrainConsVarGeq env [PVC P] (fst Vars)
                                   (Some (exprPSL env (CompoundLiteralExpr i T Init))) Same_to_Same False)
                                (CS Info2) \<rparr>))))"
| "getExprConstraintVarsAt env TypE (StringLiteral i T s) Info =
     (if isNonPointerType TypE then Inr ((PVConstraintFromType TypE, []), Info)
      else if isNULLExpression env (StringLiteral i T s) then Inr (([], []), Info)
      else cachedOr (StringLiteral i T s) Info
        (case newPVConstraint T ''StringLiteral'' (nextVar Info) of
           (P, k) \<Rightarrow>
             Inr (([PVC P], []),
                  Info\<lparr> nextVar := k, CS := constrainOuterTo P NTArrAtom False (CS Info) \<rparr>)))"
| "getExprConstraintVarsAt env TypE (StmtExpr i T Res) Info =
     (if isNonPointerType TypE then Inr ((PVConstraintFromType TypE, []), Info)
      else if isNULLExpression env (StmtExpr i T Res) then Inr (([], []), Info)
      else if hasPersistentConstraints (StmtExpr i T Res) Info
      then Inr (getPersistentConstraints (StmtExpr i T Res) Info, Info)
      else
        (case Res of
           Some ESE \<Rightarrow> getExprConstraintVarsAt env (getType ESE) ESE Info
         | None \<Rightarrow> Inr (([], []), storePersistentConstraints (StmtExpr i T Res) ([], []) Info)))"
| "getExprConstraintVarsAt env TypE (UnaryExprOrTypeTraitExpr i T k A) Info =
     (if isNonPointerType TypE then Inr ((PVConstraintFromType TypE, []), Info)
      else if isNULLExpression env (UnaryExprOrTypeTraitExpr i T k A) then Inr (([], []), Info)
      else cachedOr (UnaryExprOrTypeTraitExpr i T k A) Info (Inr (([], []), Info)))"
| "getExprConstraintVarsAt env TypE (IntegerLiteral i T n) Info =
     (if isNonPointerType TypE then Inr ((PVConstraintFromType TypE, []), Info)
      else if isNULLExpression env (IntegerLiteral i T n) then Inr (([], []), Info)
      else cachedOr (IntegerLiteral i T n) Info (Inr (([], []), Info)))"
| "getExprConstraintVarsAt env TypE (OtherExpr i T) Info =
     (if isNonPointerType TypE then Inr ((PVConstraintFromType TypE, []), Info)
      else if isNULLExpression env (OtherExpr i T) then Inr (([], []), Info)
      else cachedOr (OtherExpr i T) Info (Inr (([], []), Info)))"
| "getAllSubExprConstraintVars env [] Info = Inr (([], []), Info)"
| "getAllSubExprConstraintVars env (E # Exprs) Info =
     (case getExprConstraintVarsAt env (getType E) E Info of
        Inl err \<Rightarrow> Inl err
      | Inr (ECons, Info1) \<Rightarrow>
          (case getAllSubExprConstraintVars env Exprs Info1 of
             Inl err \<Rightarrow> Inl err
           | Inr (Aggregate, Info2) \<Rightarrow>
               Inr ((List.union (fst ECons) (fst Aggregate), List.union (snd ECons) (snd Aggregate)), Info2)))"
  by pat_completeness auto

termination
proof -
  have strip: "size (IgnoreParenImpCasts e) \<le> size e" for e
    by (induction e rule: IgnoreParenImpCasts.induct) auto
  have stripped: "size e' \<le> size e" if "IgnoreParenImpCasts e = e'" for e e'
    using strip [of e] that by simp
  have first: "size (IgnoreParenImpCasts (hd args)) < Suc (size_list size args + n)"
    if "args \<noteq> []" for args :: "Expr list" and n
    using strip [of "hd args"] that by (cases args) auto
  show ?thesis
    by (relation "measure (\<lambda>x. case x of Inl (env, T, e, st) \<Rightarrow> size e
                                      | Inr (env, es, st) \<Rightarrow> size_list size es)")
       (auto simp: le_imp_less_Suc strip first dest!: stripped)
qed

definition getExprConstraintVars :: "ResolverEnv \<Rightarrow> Expr \<Rightarrow> ProgramInfo \<Rightarrow> CSetBkeyPair resolved" where
  "getExprConstraintVars env E Info = getExprConstraintVarsAt env (getType E) E Info"

subsection \<open>Node identities and stored kinds\<close>

text \<open>
  The identities of the nodes of an expression tree. In the source the identity of a node
  is its address, so that the identities of the nodes of one tree are distinct.
\<close>

fun nodeIds :: "Expr \<Rightarrow> ExprId list" where
  "nodeIds (DeclRefExpr i T d) = [i]"
| "nodeIds (MemberExpr i T b d) = i # nodeIds b"
| "nodeIds (ParenExpr i T e) = i # nodeIds e"
| "nodeIds (ImplicitCastExpr i T e) = i # nodeIds e"
| "nodeIds (CStyleCastExpr i T e) = i # nodeIds e"
| "nodeIds (BinaryOperator i T opc l r) = i # nodeIds l @ nodeIds r"
| "nodeIds (UnaryOperator i T opc e) = i # nodeIds e"
| "nodeIds (ArraySubscriptExpr i T b x) = i # nodeIds b @ nodeIds x"
| "nodeIds (CallExpr i T f D args) = i # nodeIds f @ concat (map nodeIds args)"
| "nodeIds (ConditionalOperator i T c l r) = i # nodeIds c @ nodeIds l @ nodeIds r"
| "nodeIds (InitListExpr i T es) = i # concat (map nodeIds es)"
| "nodeIds (CompoundLiteralExpr i T e) = i # nodeIds e"
| "nodeIds (StringLiteral i T s) = [i]"
| "nodeIds (StmtExpr i T Res) = i # (case Res of None \<Rightarrow> [] | Some e \<Rightarrow> nodeIds e)"
| "nodeIds (CHKCBindTemporaryExpr i T e) = i # nodeIds e"
| "nodeIds (UnaryExprOrTypeTraitExpr i T k A) = [i]"
| "nodeIds (IntegerLiteral i T n) = [i]"
| "nodeIds (OtherExpr i T) = [i]"

text \<open>
  The kinds of node whose result \<open>getExprConstraintVars\<close> stores under the identity of the
  node: all but a node in parentheses, an implicit conversion, a reference to a
  declaration, a member access, a bound temporary, and a statement expression whose block
  ends in an expression.
\<close>

fun isCachedKind :: "Expr \<Rightarrow> bool" where
  "isCachedKind (ParenExpr i T e) = False"
| "isCachedKind (ImplicitCastExpr i T e) = False"
| "isCachedKind (DeclRefExpr i T d) = False"
| "isCachedKind (MemberExpr i T b d) = False"
| "isCachedKind (CHKCBindTemporaryExpr i T e) = False"
| "isCachedKind (StmtExpr i T Res) = (Res = None)"
| "isCachedKind e = True"

section \<open>Example declarations\<close>

text \<open>
  \<open>int *p = malloc(n * sizeof(A));\<close> with \<open>int n\<close>: the initializer, as the front end builds
  it. The call is converted to the type of \<open>p\<close>; the product has the type of \<open>sizeof\<close>, and
  its left operand is the reference to \<open>n\<close> under the conversion of an lvalue to its value
  and under the integral conversion to the type of the product.
\<close>

definition mallocDecl :: Decl where
  "mallocDecl = Decl FunctionDeclKind ''malloc'' 100"

definition nDecl :: Decl where
  "nDecl = Decl VarDeclKind ''n'' 7"

definition mallocCall :: "QualType \<Rightarrow> Expr" where
  "mallocCall A =
     ImplicitCastExpr 1 (PointerTy IntTy)
       (CallExpr 2 (PointerTy VoidTy)
          (ImplicitCastExpr 3 (PointerTy (FunctionTy (PointerTy VoidTy) [IntTy]))
             (DeclRefExpr 4 (FunctionTy (PointerTy VoidTy) [IntTy]) mallocDecl))
          (Some mallocDecl)
          [BinaryOperator 5 IntTy BO_Mul
             (ImplicitCastExpr 9 IntTy (ImplicitCastExpr 10 IntTy (DeclRefExpr 6 IntTy nDecl)))
             (UnaryExprOrTypeTraitExpr 8 IntTy UETT_SizeOf A)])"

text \<open>A bounds store for the examples: the key of a referenced variable is its location,
  and all variables live in one scope.\<close>

fun declRefKey :: "Expr \<Rightarrow> BoundsKey option" where
  "declRefKey (DeclRefExpr i T d) = Some (declLoc d)"
| "declRefKey e = None"

definition oneScope :: "BoundsKey \<Rightarrow> ProgramVar" where
  "oneScope K = \<lparr> getScope = 0, IsNumConstant = False \<rparr>"

text \<open>\<open>struct S { int *data; int count; };\<close> with \<open>data\<close> inferred to be an array.\<close>

definition dataCountStruct :: RecordDecl where
  "dataCountStruct = \<lparr> isStructOrUnion = True, recFields =
     [\<lparr> fldName = ''data'', fldIsIntegerType = False, fldKey = Some 1, fldNeedArrayBounds = True \<rparr>,
      \<lparr> fldName = ''count'', fldIsIntegerType = True, fldKey = Some 2, fldNeedArrayBounds = False \<rparr>] \<rparr>"

text \<open>\<open>void f(int *buf, int len) { ... }\<close> with \<open>buf\<close> inferred to be an array.\<close>

definition bufLenFunction :: FunctionDeclAB where
  "bufLenFunction = \<lparr> isDefinitionWithBody = True, hasFunctionProtoType = True, parms =
     [\<lparr> parmName = ''buf'', parmKey = Some 1, parmNeedArrayBounds = True,
        parmNeedNTArrayBounds = False, parmIsIntegerType = False, parmIsEnumeralType = False \<rparr>,
      \<lparr> parmName = ''len'', parmKey = Some 2, parmNeedArrayBounds = False,
        parmNeedNTArrayBounds = False, parmIsIntegerType = True, parmIsEnumeralType = False \<rparr>] \<rparr>"

text \<open>The same function defined in the old style, \<open>void f(buf, len) int *buf; int len; { ... }\<close>:
  its type is not a \<open>FunctionProtoType\<close>.\<close>

definition bufLenFunctionKR :: FunctionDeclAB where
  "bufLenFunctionKR = bufLenFunction\<lparr> hasFunctionProtoType := False \<rparr>"

text \<open>\<open>void h(char **strs, int len) { ... }\<close> with \<open>strs\<close> inferred to be an array of
  null-terminated arrays: it needs the bounds of an array and of a null-terminated array.\<close>

definition strsLenFunction :: FunctionDeclAB where
  "strsLenFunction = \<lparr> isDefinitionWithBody = True, hasFunctionProtoType = True, parms =
     [\<lparr> parmName = ''strs'', parmKey = Some 1, parmNeedArrayBounds = True,
        parmNeedNTArrayBounds = True, parmIsIntegerType = False, parmIsEnumeralType = False \<rparr>,
      \<lparr> parmName = ''len'', parmKey = Some 2, parmNeedArrayBounds = False,
        parmNeedNTArrayBounds = False, parmIsIntegerType = True, parmIsEnumeralType = False \<rparr>] \<rparr>"

text \<open>\<open>void g(int *data, float f, int d_ata, int count) { ... }\<close> with \<open>data\<close> an array.\<close>

definition dataParams :: "ParmVarDecl list" where
  "dataParams =
     [\<lparr> parmName = ''data'', parmKey = Some 1, parmNeedArrayBounds = True,
        parmNeedNTArrayBounds = False, parmIsIntegerType = False, parmIsEnumeralType = False \<rparr>,
      \<lparr> parmName = ''f'', parmKey = Some 2, parmNeedArrayBounds = False,
        parmNeedNTArrayBounds = False, parmIsIntegerType = False, parmIsEnumeralType = False \<rparr>,
      \<lparr> parmName = ''d_ata'', parmKey = Some 3, parmNeedArrayBounds = False,
        parmNeedNTArrayBounds = False, parmIsIntegerType = True, parmIsEnumeralType = False \<rparr>,
      \<lparr> parmName = ''count'', parmKey = Some 4, parmNeedArrayBounds = False,
        parmNeedNTArrayBounds = False, parmIsIntegerType = True, parmIsEnumeralType = False \<rparr>]"

text \<open>
  The state before anything was analysed, and the declarations of
  \<open>void f(int *p);\<close>: the parameter \<open>p\<close> at location 1 (as a variable declaration of its own),
  the function at location 0.
\<close>

definition emptyProgramInfo :: ProgramInfo where
  "emptyProgramInfo = \<lparr> CS = [], nextVar = 0, Variables = [],
     GlobalVariableSymbols = [], ExternalFunctionDeclFVCons = [], ExternalFunctionDefnFVCons = [],
     StaticFunctionDeclFVCons = [], StaticFunctionDefnFVCons = [], ExternFunctions = [],
     MultipleRewrites = False, SeperateMultipleFuncDecls = False,
     PersistentConstraints = Map.empty \<rparr>"

definition onePInfo :: ProgramInfo where
  "onePInfo = emptyProgramInfo\<lparr> nextVar := 1,
     Variables := [(1, [PVC (MkPV [VarAtom 0] ''p'' None False None False None False)])] \<rparr>"

definition pVarDecl :: DeclaratorDecl where
  "pVarDecl = VarDeclD ''p'' 1 True (PointerTy IntTy)"

definition fFunctionDecl :: DeclaratorDecl where
  "fFunctionDecl = FunctionDeclD ''f'' 0 True VoidTy
     [\<lparr> pdName = ''p'', pdLoc = 1, pdType = PointerTy IntTy \<rparr>] True False ''a.c'' True"

text \<open>
  Three edges: atom 1 is constrained by atom 2, atom 2 is forced \<open>Wild\<close> by a cast, atom 3
  is constrained by atom 4.
\<close>

definition wildChain :: "Constraint list" where
  "wildChain = [Geq (VarAtom 1) (VarAtom 2) [] None,
                Geq (VarAtom 2) (ConstantAtom WildAtom) ''cast'' (Some 7),
                Geq (VarAtom 3) (VarAtom 4) [] None]"

text \<open>
  \<open>char *strcpy(char *dst, const char *src);\<close> declared at two places of the program (in a
  header at location 10, with its parameters at 11 and 12, and again in a source file at
  location 20, with its parameters at 21 and 22), and the state after \<open>addVariable\<close> and
  \<open>seeFunctionDecl\<close> have been called for both declarations.
\<close>

definition strcpyDeclA :: DeclaratorDecl where
  "strcpyDeclA = FunctionDeclD ''strcpy'' 10 True (PointerTy CharTy)
     [\<lparr> pdName = ''dst'', pdLoc = 11, pdType = PointerTy CharTy \<rparr>,
      \<lparr> pdName = ''src'', pdLoc = 12, pdType = PointerTy CharTy \<rparr>] True False ''string.h'' True"

definition strcpyDeclB :: DeclaratorDecl where
  "strcpyDeclB = FunctionDeclD ''strcpy'' 20 True (PointerTy CharTy)
     [\<lparr> pdName = ''dst'', pdLoc = 21, pdType = PointerTy CharTy \<rparr>,
      \<lparr> pdName = ''src'', pdLoc = 22, pdType = PointerTy CharTy \<rparr>] True False ''a.c'' True"

definition strcpyTwice :: ProgramInfo where
  "strcpyTwice = seeFunctionDecl strcpyDeclB (seeFunctionDecl strcpyDeclA
     (projr (addVariables [strcpyDeclA, strcpyDeclB] emptyProgramInfo)))"

text \<open>
  Two declarations of \<open>g\<close> in two units, \<open>void g(int *a);\<close> at location 30 and
  \<open>void g(int *a, int *b);\<close> at location 40, both with a prototype and neither with a body,
  and the state after \<open>addVariable\<close> and \<open>seeFunctionDecl\<close> have been called for both.
\<close>

definition gDeclA :: DeclaratorDecl where
  "gDeclA = FunctionDeclD ''g'' 30 True VoidTy
     [\<lparr> pdName = ''a'', pdLoc = 31, pdType = PointerTy IntTy \<rparr>] True False ''a.c'' True"

definition gDeclB :: DeclaratorDecl where
  "gDeclB = FunctionDeclD ''g'' 40 True VoidTy
     [\<lparr> pdName = ''a'', pdLoc = 41, pdType = PointerTy IntTy \<rparr>,
      \<lparr> pdName = ''b'', pdLoc = 42, pdType = PointerTy IntTy \<rparr>] True False ''b.c'' True"

definition gTwice :: ProgramInfo where
  "gTwice = seeFunctionDecl gDeclB (seeFunctionDecl gDeclA
     (projr (addVariables [gDeclA, gDeclB] emptyProgramInfo)))"

text \<open>A stand-in for \<open>constrainConsVarGeq\<close> in the examples that adds no edge.\<close>

definition noEdges :: ConsVarGeq where
  "noEdges L R psl act eq = []"

fun showType :: "QualType \<Rightarrow> string" where
  "showType VoidTy = ''void''"
| "showType IntTy = ''int''"
| "showType CharTy = ''char''"
| "showType FloatTy = ''float''"
| "showType (EnumTy n) = ''enum '' @ n"
| "showType (RecordTy n) = ''struct '' @ n"
| "showType (PointerTy T) = showType T @ '' *''"
| "showType (ArrayTy T) = showType T @ '' []''"
| "showType (FunctionTy R Ps) = showType R @ '' ()''"

fun isZeroLiteral :: "Expr \<Rightarrow> bool" where
  "isZeroLiteral (IntegerLiteral i T n) = (n = 0)"
| "isZeroLiteral e = False"

fun literalValue :: "Expr \<Rightarrow> int option" where
  "literalValue (IntegerLiteral i T n) = Some n"
| "literalValue e = None"

definition qDecl :: Decl where
  "qDecl = Decl VarDeclKind ''q'' 9"

definition qVar :: ConstraintVariable where
  "qVar = PVC (MkPV [VarAtom 0] ''q'' None False None False None False)"

text \<open>
  A front end for the examples: a null pointer expression is a literal zero under casts
  and parentheses, at a pointer type; a cast is safe when it is to a non-pointer or between
  equal types; only literals evaluate; everything is rewritable; the only declaration with
  a variable is \<open>q\<close>; \<open>constrainConsVarGeq\<close> adds no edge.
\<close>

definition exampleEnv :: ResolverEnv where
  "exampleEnv = \<lparr>
     isNULLExpression = (\<lambda>E. isPointerType (getType E) \<and> isZeroLiteral (removeAuxillaryCasts E)),
     isCastSafe = (\<lambda>Dst Src. \<not> isPointerType Dst \<or> Dst = Src),
     evaluateToInt = literalValue,
     isRewritableExpr = (\<lambda>E. True),
     exprPSL = exprId,
     getAsString = showType,
     Info_getVariable = (\<lambda>D. if D = qDecl then Some qVar else None),
     constrainConsVarGeq = noEdges,
     AllocatorFunctions = [],
     getContextSensitiveBoundsKey = (\<lambda>CE k. k) \<rparr>"

definition qInfo :: ProgramInfo where
  "qInfo = emptyProgramInfo\<lparr> nextVar := 1 \<rparr>"

definition callocDecl :: Decl where
  "callocDecl = Decl FunctionDeclKind ''calloc'' 101"

text \<open>\<open>calloc(n, sizeof(int))\<close> for a first argument \<open>n\<close>.\<close>

definition callocCall :: "Expr \<Rightarrow> Expr" where
  "callocCall n =
     CallExpr 2 (PointerTy VoidTy)
       (ImplicitCastExpr 3 (PointerTy (FunctionTy (PointerTy VoidTy) [IntTy, IntTy]))
          (DeclRefExpr 4 (FunctionTy (PointerTy VoidTy) [IntTy, IntTy]) callocDecl))
       (Some callocDecl)
       [n, UnaryExprOrTypeTraitExpr 8 IntTy UETT_SizeOf IntTy]"

text \<open>\<open>(int *)(void *)0\<close>, \<open>(int * )q\<close> implicitly with \<open>void *q\<close>, and \<open>(char * )0\<close> converted
  implicitly to \<open>int *\<close>.\<close>

definition nullCast :: Expr where
  "nullCast = CStyleCastExpr 1 (PointerTy IntTy)
                (CStyleCastExpr 2 (PointerTy VoidTy) (IntegerLiteral 3 IntTy 0))"

definition voidConversion :: Expr where
  "voidConversion = ImplicitCastExpr 1 (PointerTy IntTy) (DeclRefExpr 2 (PointerTy VoidTy) qDecl)"

definition nullConversion :: Expr where
  "nullConversion = ImplicitCastExpr 1 (PointerTy IntTy)
                      (CStyleCastExpr 2 (PointerTy CharTy) (IntegerLiteral 3 IntTy 0))"

text \<open>\<open>(int * )q\<close> with \<open>char *q\<close>, explicitly and implicitly.\<close>

definition charCast :: Expr where
  "charCast = CStyleCastExpr 1 (PointerTy IntTy) (DeclRefExpr 2 (PointerTy CharTy) qDecl)"

definition charConversion :: Expr where
  "charConversion = ImplicitCastExpr 1 (PointerTy IntTy) (DeclRefExpr 2 (PointerTy CharTy) qDecl)"

section \<open>Properties of the name heuristics\<close>

lemma lenFieldLoop_nomatch:
  "\<forall>l\<in>set Pot. \<not> hasNameMatch (fst a) (fst l) \<Longrightarrow> lenFieldLoop a Pot ABI = ABI"
  by (induction Pot arbitrary: ABI) auto

lemma foldl_lenFieldLoop_nomatch:
  "\<forall>a\<in>set Arrs. \<forall>l\<in>set Pot. \<not> hasNameMatch (fst a) (fst l) \<Longrightarrow>
   foldl (\<lambda>st PtrField. lenFieldLoop PtrField Pot st) ABI Arrs = ABI"
  by (induction Arrs arbitrary: ABI) (auto simp: lenFieldLoop_nomatch)

lemma VisitRecordDecl_nomatch:
  "\<forall>a\<in>set (IdentifiedArrVars (recFields RD)). \<forall>l\<in>set (PotLenFields (recFields RD)).
      \<not> hasNameMatch (fst a) (fst l) \<Longrightarrow> VisitRecordDecl RD ABI = ABI"
  by (simp add: VisitRecordDecl_def Let_def foldl_lenFieldLoop_nomatch)

lemma IdentifiedArrVars_dataCount: "IdentifiedArrVars (recFields dataCountStruct) = [(''data'', 1)]"
  by (simp add: dataCountStruct_def IdentifiedArrVars_def List.map_filter_def)

lemma PotLenFields_dataCount: "PotLenFields (recFields dataCountStruct) = [(''count'', 2)]"
  by (simp add: dataCountStruct_def PotLenFields_def List.map_filter_def)

lemma data_count_no_prefix: "\<not> hasNameMatch ''data'' ''count''"
  by (simp add: hasNameMatch_def startsWith_def)

text \<open>
  C7, as stated: for \<open>struct { int *data; int count; }\<close> the bounds engine binds \<open>data\<close> to
  \<open>ElementCount(count)\<close> by the keyword rule. It does not: \<open>VisitRecordDecl\<close> only tries
  the prefix match between the two names, \<open>count\<close> does not start with \<open>data\<close>, and
  the keyword fallback for fields is commented out in the source. No bound is recorded.
\<close>

theorem C7_struct_keyword_counterexample:
  "BInfo (VisitRecordDecl dataCountStruct emptyABInfo) 1 \<noteq> Some (CountBound 2)"
  by (simp add: VisitRecordDecl_def IdentifiedArrVars_dataCount PotLenFields_dataCount
        data_count_no_prefix emptyABInfo_def)

text \<open>
  C7, amended: the keyword rule itself is as the spec words it (a name that, in lower case,
  starts with one of count, len, num, siz, size or contains length), and \<open>count\<close> satisfies
  it. For structure fields the only rule \<open>VisitRecordDecl\<close> applies is the prefix match:
  when no candidate length field's name starts with the name of an array field, the
  bounds store is left exactly as it was. For function parameters without an adjacent length
  parameter the keyword rule is the last resort: as soon as the prefix or the
  common-subsequence match has found a length, the keyword loop is not run, so the keyword
  match never takes precedence over them.
\<close>

theorem C7_keyword_rule_amended:
  "(fieldNameMatch F \<longleftrightarrow>
      (\<exists>P\<in>{''len'', ''count'', ''size'', ''num'', ''siz''}. startsWith (toLowerStr F) P) \<or>
      containsStr (toLowerStr F) ''length'') \<and>
   fieldNameMatch ''count'' \<and>
   ((\<forall>a\<in>set (IdentifiedArrVars (recFields RD)). \<forall>l\<in>set (PotLenFields (recFields RD)).
        \<not> hasNameMatch (fst a) (fst l)) \<longrightarrow> VisitRecordDecl RD ABI = ABI) \<and>
   (map_of LenPs (Suc PIdx) = None \<and> fst (nameMatchLoop (nm, PBKey) LenPs (False, ABI)) \<longrightarrow>
      arrParamBody LenPs (PIdx, (nm, PBKey)) ABI = snd (nameMatchLoop (nm, PBKey) LenPs (False, ABI)))"
proof (intro conjI impI)
  show "fieldNameMatch F \<longleftrightarrow>
      (\<exists>P\<in>{''len'', ''count'', ''size'', ''num'', ''siz''}. startsWith (toLowerStr F) P) \<or>
      containsStr (toLowerStr F) ''length''"
    by (auto simp: fieldNameMatch_def Let_def LengthVarNamesPrefixes_def LengthVarNamesSubstring_def)
  show "fieldNameMatch ''count''"
    by code_simp
next
  assume "\<forall>a\<in>set (IdentifiedArrVars (recFields RD)). \<forall>l\<in>set (PotLenFields (recFields RD)).
        \<not> hasNameMatch (fst a) (fst l)"
  then show "VisitRecordDecl RD ABI = ABI" by (rule VisitRecordDecl_nomatch)
next
  assume "map_of LenPs (Suc PIdx) = None \<and> fst (nameMatchLoop (nm, PBKey) LenPs (False, ABI))"
  then show "arrParamBody LenPs (PIdx, (nm, PBKey)) ABI = snd (nameMatchLoop (nm, PBKey) LenPs (False, ABI))"
    by (simp add: arrParamBody_def Let_def)
qed

lemma LengthParams_dataParams:
  "LengthParams None dataParams = [(2, (''d_ata'', 3)), (3, (''count'', 4))]"
  by (simp add: LengthParams_def dataParams_def List.map_filter_def enumerate_eq_zip
        IsPotentialLengthVar_def upt_rec)

lemma nameMatchLoop_dataParams:
  "nameMatchLoop (''data'', 1) [(2, (''d_ata'', 3)), (3, (''count'', 4))] (False, emptyABInfo) =
     (True, emptyABInfo\<lparr> BInfo := [1 \<mapsto> CountBound 3], NamePrefixMatch := {1} \<rparr>)"
proof -
  have "\<not> hasNameMatch ''data'' ''d_ata''" "\<not> hasNameMatch ''data'' ''count''"
    by (simp_all add: hasNameMatch_def startsWith_def)
  moreover have "nameSubStringMatch ''data'' ''d_ata''" "\<not> nameSubStringMatch ''data'' ''count''"
    by code_simp+
  ultimately show ?thesis
    by (simp add: replaceBounds_def emptyABInfo_def)
qed

text \<open>
  The amended statement at work: the struct \<open>{data, count}\<close> keeps an empty bounds store,
  and for \<open>g(int *data, float f, int d_ata, int count)\<close> the common-subsequence match
  with \<open>d_ata\<close> decides, although \<open>count\<close> matches the keyword rule.
\<close>

theorem C7_keyword_rule_amended_witness:
  "VisitRecordDecl dataCountStruct emptyABInfo = emptyABInfo \<and>
   fieldNameMatch ''count'' \<and>
   BInfo (arrParamBody (LengthParams None dataParams) (0, (''data'', 1)) emptyABInfo) 1
     = Some (CountBound 3)"
proof -
  note inst = C7_keyword_rule_amended[of "''count''" dataCountStruct emptyABInfo
      "LengthParams None dataParams" 0 "''data''" 1]
  have h1: "\<forall>a\<in>set (IdentifiedArrVars (recFields dataCountStruct)).
      \<forall>l\<in>set (PotLenFields (recFields dataCountStruct)). \<not> hasNameMatch (fst a) (fst l)"
    by (simp add: IdentifiedArrVars_dataCount PotLenFields_dataCount data_count_no_prefix)
  have h2: "map_of (LengthParams None dataParams) (Suc 0) = None \<and>
      fst (nameMatchLoop (''data'', 1) (LengthParams None dataParams) (False, emptyABInfo))"
    unfolding LengthParams_dataParams nameMatchLoop_dataParams by simp
  from inst h1 h2 have "VisitRecordDecl dataCountStruct emptyABInfo = emptyABInfo"
    and "fieldNameMatch ''count''"
    and "arrParamBody (LengthParams None dataParams) (0, (''data'', 1)) emptyABInfo =
         snd (nameMatchLoop (''data'', 1) (LengthParams None dataParams) (False, emptyABInfo))"
    by blast+
  then show ?thesis
    unfolding LengthParams_dataParams nameMatchLoop_dataParams by simp
qed

section \<open>Properties of the adjacent-parameter heuristic\<close>

lemma map_of_enumerate_filter:
  "map_of (List.map_filter (\<lambda>(i, p). case h i p of None \<Rightarrow> None | Some v \<Rightarrow> Some (i, v)) (enumerate n ps)) j
   = (if n \<le> j \<and> j < n + length ps then h j (ps ! (j - n)) else None)"
proof (induction ps arbitrary: n)
  case Nil
  then show ?case by (auto simp add: List.map_filter_def)
next
  case (Cons p ps)
  have step: "List.map_filter (\<lambda>(i, p). case h i p of None \<Rightarrow> None | Some v \<Rightarrow> Some (i, v)) (enumerate n (p # ps))
     = (case h n p of None \<Rightarrow> [] | Some v \<Rightarrow> [(n, v)]) @
       List.map_filter (\<lambda>(i, p). case h i p of None \<Rightarrow> None | Some v \<Rightarrow> Some (i, v)) (enumerate (Suc n) ps)"
    by (simp add: List.map_filter_def split: option.splits)
  show ?case
    unfolding step using Cons.IH[of "Suc n"]
    by (auto split: option.splits simp: nth_Cons' Suc_diff_le)
qed

lemma LengthParams_alt:
  "LengthParams PI ps = List.map_filter (\<lambda>(i, p).
      case (case parmKey p of None \<Rightarrow> None
            | Some PK \<Rightarrow> if IsPotentialLengthVar PI i p then Some (parmName p, PK) else None) of
        None \<Rightarrow> None | Some v \<Rightarrow> Some (i, v)) (enumerate 0 ps)"
  unfolding LengthParams_def
  by (rule arg_cong[where f="\<lambda>f. List.map_filter f (enumerate 0 ps)"]) (auto split: option.splits)

lemma map_of_LengthParams:
  "map_of (LengthParams PI ps) j =
    (if j < length ps then
       (case parmKey (ps ! j) of None \<Rightarrow> None
        | Some PK \<Rightarrow> if IsPotentialLengthVar PI j (ps ! j) then Some (parmName (ps ! j), PK) else None)
     else None)"
  unfolding LengthParams_alt by (auto simp add: map_of_enumerate_filter split: option.splits)

lemma arrParamBody_adjacent:
  assumes "Suc i < length ps" "parmKey (ps ! Suc i) = Some LK"
    "IsPotentialLengthVar PI (Suc i) (ps ! Suc i)"
  shows "arrParamBody (LengthParams PI ps) (i, (nm, PK)) ABI =
     (replaceBounds PK (CountBound LK) ABI)\<lparr> NeighbourParamMatch := insert PK (NeighbourParamMatch ABI) \<rparr>"
  using assms by (simp add: arrParamBody_def map_of_LengthParams)

lemma nameMatchLoop_other:
  "K \<noteq> snd Arr \<Longrightarrow> BInfo (snd (nameMatchLoop Arr L (b, ABI))) K = BInfo ABI K"
  by (induction L arbitrary: b ABI) (auto simp: replaceBounds_def)

lemma keywordLoop_other:
  "K \<noteq> snd Arr \<Longrightarrow> BInfo (snd (keywordLoop Arr L (b, ABI))) K = BInfo ABI K"
  by (induction L arbitrary: b ABI) (auto simp: replaceBounds_def)

lemma arrParamBody_other:
  "K \<noteq> snd (snd a) \<Longrightarrow> BInfo (arrParamBody L a ABI) K = BInfo ABI K"
  unfolding arrParamBody_def Let_def
  by (cases "nameMatchLoop (snd a) L (False, ABI)")
     (auto split: option.splits simp: replaceBounds_def keywordLoop_other
           dest: arg_cong[where f="\<lambda>r. BInfo (snd r) K"] simp: nameMatchLoop_other)

lemma ntArrParamBody_other:
  "K \<noteq> snd (snd a) \<Longrightarrow> BInfo (ntArrParamBody L a ABI) K = BInfo ABI K"
  unfolding ntArrParamBody_def Let_def
  by (auto split: option.splits simp: replaceBounds_def)

lemma foldl_arr_other:
  "\<forall>a\<in>set As. snd (snd a) \<noteq> K \<Longrightarrow>
   BInfo (foldl (\<lambda>st a. arrParamBody L a st) ABI As) K = BInfo ABI K"
  by (induction As arbitrary: ABI) (auto simp: arrParamBody_other)

lemma foldl_nt_other:
  "\<forall>a\<in>set As. snd (snd a) \<noteq> K \<Longrightarrow>
   BInfo (foldl (\<lambda>st a. ntArrParamBody L a st) ABI As) K = BInfo ABI K"
  by (induction As arbitrary: ABI) (auto simp: ntArrParamBody_other)

lemma ParamArrays_alt:
  "ParamArrays ps = List.map_filter (\<lambda>(i, p).
      case (case parmKey p of None \<Rightarrow> None
            | Some PK \<Rightarrow> if parmNeedArrayBounds p then Some (parmName p, PK) else None) of
        None \<Rightarrow> None | Some v \<Rightarrow> Some (i, v)) (enumerate 0 ps)"
  unfolding ParamArrays_def
  by (rule arg_cong[where f="\<lambda>f. List.map_filter f (enumerate 0 ps)"]) (auto split: option.splits)

lemma ParamNtArrays_alt:
  "ParamNtArrays ps = List.map_filter (\<lambda>(i, p).
      case (case parmKey p of None \<Rightarrow> None
            | Some PK \<Rightarrow> if parmNeedNTArrayBounds p then Some (parmName p, PK) else None) of
        None \<Rightarrow> None | Some v \<Rightarrow> Some (i, v)) (enumerate 0 ps)"
  unfolding ParamNtArrays_def
  by (rule arg_cong[where f="\<lambda>f. List.map_filter f (enumerate 0 ps)"]) (auto split: option.splits)

lemma distinct_fst_enumerate_filter:
  "distinct (map fst (List.map_filter (\<lambda>(i, p). case h i p of None \<Rightarrow> None | Some v \<Rightarrow> Some (i, v)) (enumerate n ps)))"
proof -
  have "map fst (List.map_filter (\<lambda>(i, p). case h i p of None \<Rightarrow> None | Some v \<Rightarrow> Some (i, v)) (enumerate n ps))
      = map fst (filter (\<lambda>(i, p). h i p \<noteq> None) (enumerate n ps))"
    by (induction ps arbitrary: n) (auto simp: List.map_filter_def split: option.splits)
  moreover have "distinct (map fst (filter (\<lambda>(i, p). h i p \<noteq> None) (enumerate n ps)))"
    by (rule distinct_map_filter) simp
  ultimately show ?thesis by simp
qed

lemma set_enumerate_filter:
  "((j, v) \<in> set (List.map_filter (\<lambda>(i, p). case h i p of None \<Rightarrow> None | Some v \<Rightarrow> Some (i, v)) (enumerate n ps)))
   = (n \<le> j \<and> j < n + length ps \<and> h j (ps ! (j - n)) = Some v)"
  using map_of_eq_Some_iff[OF distinct_fst_enumerate_filter, of h n ps j v]
  unfolding map_of_enumerate_filter by (auto split: if_splits)

lemma in_ParamArrays:
  "((j, (nm, K)) \<in> set (ParamArrays ps)) =
     (j < length ps \<and> parmKey (ps ! j) = Some K \<and> parmNeedArrayBounds (ps ! j) \<and> nm = parmName (ps ! j))"
  unfolding ParamArrays_alt set_enumerate_filter by (auto split: option.splits)

lemma in_ParamNtArrays:
  "((j, (nm, K)) \<in> set (ParamNtArrays ps)) =
     (j < length ps \<and> parmKey (ps ! j) = Some K \<and> parmNeedNTArrayBounds (ps ! j) \<and> nm = parmName (ps ! j))"
  unfolding ParamNtArrays_alt set_enumerate_filter by (auto split: option.splits)

lemma distinct_ParamArrays: "distinct (map fst (ParamArrays ps))"
  unfolding ParamArrays_alt by (rule distinct_fst_enumerate_filter)

lemma foldl_nt_keep:
  assumes "map_of L (Suc i) = Some (ln, LK)"
    and "\<forall>a\<in>set As. snd (snd a) = PK \<longrightarrow> fst a = i"
    and "BInfo ABI PK = Some (CountBound LK)"
  shows "BInfo (foldl (\<lambda>st a. ntArrParamBody L a st) ABI As) PK = Some (CountBound LK)"
  using assms(2,3)
proof (induction As arbitrary: ABI)
  case Nil
  then show ?case by simp
next
  case (Cons a As)
  have "BInfo (ntArrParamBody L a ABI) PK = Some (CountBound LK)"
  proof (cases "snd (snd a) = PK")
    case True
    with Cons.prems have "fst a = i" by simp
    with True assms(1) Cons.prems(2) show ?thesis
      by (simp add: ntArrParamBody_def replaceBounds_def)
  next
    case False
    then show ?thesis using Cons.prems(2) by (simp add: ntArrParamBody_other)
  qed
  with Cons show ?case by simp
qed

lemma replaceBounds_stats [simp]:
  "NamePrefixMatch (replaceBounds K B ABI) = NamePrefixMatch ABI"
  "VariableNameMatch (replaceBounds K B ABI) = VariableNameMatch ABI"
  "NeighbourParamMatch (replaceBounds K B ABI) = NeighbourParamMatch ABI"
  "AllocatorMatch (replaceBounds K B ABI) = AllocatorMatch ABI"
  by (simp_all add: replaceBounds_def)

lemma BInfo_replaceBounds:
  "BInfo (replaceBounds K B ABI) K' =
     (if K' = K \<and> K \<notin> AllocatorMatch ABI then Some B else BInfo ABI K')"
  by (simp add: replaceBounds_def)

lemma nameMatchLoop_stats:
  "AllocatorMatch (snd (nameMatchLoop Arr L (b, ABI))) = AllocatorMatch ABI \<and>
   VariableNameMatch (snd (nameMatchLoop Arr L (b, ABI))) = VariableNameMatch ABI \<and>
   NeighbourParamMatch (snd (nameMatchLoop Arr L (b, ABI))) = NeighbourParamMatch ABI \<and>
   (K \<noteq> snd Arr \<longrightarrow>
      (K \<in> NamePrefixMatch (snd (nameMatchLoop Arr L (b, ABI)))) = (K \<in> NamePrefixMatch ABI))"
  by (induction L arbitrary: b ABI) auto

lemma keywordLoop_stats:
  "AllocatorMatch (snd (keywordLoop Arr L (b, ABI))) = AllocatorMatch ABI \<and>
   NamePrefixMatch (snd (keywordLoop Arr L (b, ABI))) = NamePrefixMatch ABI \<and>
   NeighbourParamMatch (snd (keywordLoop Arr L (b, ABI))) = NeighbourParamMatch ABI \<and>
   (K \<noteq> snd Arr \<longrightarrow>
      (K \<in> VariableNameMatch (snd (keywordLoop Arr L (b, ABI)))) = (K \<in> VariableNameMatch ABI))"
  by (induction L arbitrary: b ABI) auto

lemma arrParamBody_stats:
  "AllocatorMatch (arrParamBody L a ABI) = AllocatorMatch ABI \<and>
   (K \<noteq> snd (snd a) \<longrightarrow>
      (K \<in> NamePrefixMatch (arrParamBody L a ABI)) = (K \<in> NamePrefixMatch ABI) \<and>
      (K \<in> VariableNameMatch (arrParamBody L a ABI)) = (K \<in> VariableNameMatch ABI) \<and>
      (K \<in> NeighbourParamMatch (arrParamBody L a ABI)) = (K \<in> NeighbourParamMatch ABI))"
proof -
  obtain b1 A1 where r1: "nameMatchLoop (snd a) L (False, ABI) = (b1, A1)"
    by (cases "nameMatchLoop (snd a) L (False, ABI)")
  note n = nameMatchLoop_stats [of "snd a" L False ABI K, unfolded r1 snd_conv]
  note k = keywordLoop_stats [of "snd a" L b1 A1 K]
  show ?thesis
    unfolding arrParamBody_def Let_def r1 using n k
    by (auto split: option.splits)
qed

lemma ntArrParamBody_stats [simp]:
  "AllocatorMatch (ntArrParamBody L a ABI) = AllocatorMatch ABI"
  "NamePrefixMatch (ntArrParamBody L a ABI) = NamePrefixMatch ABI"
  "NeighbourParamMatch (ntArrParamBody L a ABI) = NeighbourParamMatch ABI"
  by (auto simp: ntArrParamBody_def Let_def split: option.splits)

lemma foldl_arr_stats:
  "AllocatorMatch (foldl (\<lambda>st a. arrParamBody L a st) ABI As) = AllocatorMatch ABI \<and>
   ((\<forall>a\<in>set As. snd (snd a) \<noteq> K) \<longrightarrow>
      (K \<in> NamePrefixMatch (foldl (\<lambda>st a. arrParamBody L a st) ABI As)) = (K \<in> NamePrefixMatch ABI) \<and>
      (K \<in> VariableNameMatch (foldl (\<lambda>st a. arrParamBody L a st) ABI As)) = (K \<in> VariableNameMatch ABI) \<and>
      (K \<in> NeighbourParamMatch (foldl (\<lambda>st a. arrParamBody L a st) ABI As)) =
        (K \<in> NeighbourParamMatch ABI))"
proof (induction As arbitrary: ABI)
  case Nil
  then show ?case by simp
next
  case (Cons a As)
  from Cons.IH [of "arrParamBody L a ABI"] arrParamBody_stats [of L a ABI K]
  show ?case by auto
qed

lemma foldl_nt_stats [simp]:
  "AllocatorMatch (foldl (\<lambda>st a. ntArrParamBody L a st) ABI As) = AllocatorMatch ABI"
  "NamePrefixMatch (foldl (\<lambda>st a. ntArrParamBody L a st) ABI As) = NamePrefixMatch ABI"
  "NeighbourParamMatch (foldl (\<lambda>st a. ntArrParamBody L a st) ABI As) = NeighbourParamMatch ABI"
  by (induction As arbitrary: ABI) simp_all

lemma foldl_nt_keyword:
  assumes "map_of L (Suc i) = Some (ln, LK)"
    and "\<forall>a\<in>set As. snd (snd a) = PK \<longrightarrow> fst a = i"
  shows "(PK \<in> VariableNameMatch (foldl (\<lambda>st a. ntArrParamBody L a st) ABI As)) =
     (PK \<in> VariableNameMatch ABI \<or> ((\<exists>a\<in>set As. snd (snd a) = PK) \<and> fieldNameMatch ln))"
  using assms(2)
proof (induction As arbitrary: ABI)
  case Nil
  then show ?case by simp
next
  case (Cons a As)
  have step: "(PK \<in> VariableNameMatch (ntArrParamBody L a ABI)) =
      (PK \<in> VariableNameMatch ABI \<or> (snd (snd a) = PK \<and> fieldNameMatch ln))"
  proof (cases "snd (snd a) = PK")
    case True
    with Cons.prems have "fst a = i" by simp
    with True assms(1) show ?thesis by (simp add: ntArrParamBody_def)
  next
    case False
    then show ?thesis by (auto simp: ntArrParamBody_def Let_def split: option.splits)
  qed
  from Cons.prems have "\<forall>a\<in>set As. snd (snd a) = PK \<longrightarrow> fst a = i" by simp
  from Cons.IH [OF this, of "ntArrParamBody L a ABI"] step show ?case by auto
qed

lemma foldl_nt_bound:
  assumes "map_of L (Suc i) = Some (ln, LK)"
    and "\<forall>a\<in>set As. snd (snd a) = PK \<longrightarrow> fst a = i"
    and "BInfo ABI PK = Some (CountBound LK)"
  shows "BInfo (foldl (\<lambda>st a. ntArrParamBody L a st) ABI As) PK = Some (CountBound LK)"
  using assms(2,3)
proof (induction As arbitrary: ABI)
  case Nil
  then show ?case by simp
next
  case (Cons a As)
  have "BInfo (ntArrParamBody L a ABI) PK = Some (CountBound LK)"
  proof (cases "snd (snd a) = PK")
    case True
    with Cons.prems have "fst a = i" by simp
    with True assms(1) Cons.prems(2) show ?thesis
      by (simp add: ntArrParamBody_def BInfo_replaceBounds)
  next
    case False
    then show ?thesis using Cons.prems(2) by (simp add: ntArrParamBody_other)
  qed
  with Cons show ?case by simp
qed

text \<open>
  C6, as stated: every array parameter of a function definition followed by a potential
  length parameter is bound to that parameter, and no name heuristic is attempted for it.
  \<open>VisitFunctionDecl\<close> guards the whole analysis by \<open>FT != nullptr\<close>: a definition whose
  type carries no prototype (an old-style definition) is skipped, and no bound is
  recorded. And for a parameter that is also a candidate null-terminated array the second
  loop applies the keyword heuristic to the name of the adjacent parameter: for
  \<open>(char **strs, int len)\<close> the variable-name statistic records \<open>strs\<close>.
\<close>

theorem C6_no_prototype_counterexample:
  "BInfo (VisitFunctionDecl (Some {}) bufLenFunctionKR emptyABInfo) 1 \<noteq> Some (CountBound 2) \<and>
   1 \<in> VariableNameMatch (VisitFunctionDecl (Some {}) strsLenFunction emptyABInfo)"
proof -
  have kw: "fieldNameMatch ''len''" by code_simp
  have "BInfo (VisitFunctionDecl (Some {}) bufLenFunctionKR emptyABInfo) 1 \<noteq> Some (CountBound 2)"
    by (simp add: VisitFunctionDecl_def bufLenFunctionKR_def bufLenFunction_def emptyABInfo_def)
  moreover have "1 \<in> VariableNameMatch (VisitFunctionDecl (Some {}) strsLenFunction emptyABInfo)"
    using kw
    by (simp add: VisitFunctionDecl_def strsLenFunction_def emptyABInfo_def ParamArrays_def
        ParamNtArrays_def LengthParams_def List.map_filter_def enumerate_eq_zip
        IsPotentialLengthVar_def isNonLengthParameter_def arrParamBody_def ntArrParamBody_def
        replaceBounds_def Let_def upt_rec)
  ultimately show ?thesis by simp
qed

text \<open>
  C6, amended: in a function definition with a body and a prototype, let the parameter at
  position \<open>i\<close> need array bounds, and let the parameter at position \<open>i + 1\<close> be integer
  typed and not excluded as a non-length parameter (both with a bounds key, no other
  parameter sharing the array's key). Then the body of the loop over the array parameters
  hands \<open>CountBound\<close> of the adjacent parameter to \<open>replaceBounds\<close> and records the neighbour
  statistic and nothing else, whatever the names of the parameters are; the body of the
  loop over the candidate null-terminated arrays, when the parameter is one of them,
  applies the keyword match to the name of the adjacent parameter and on a match hands
  the same bound to \<open>replaceBounds\<close> and records the variable-name statistic. After
  \<open>VisitFunctionDecl\<close> the array's key is bound to \<open>CountBound\<close> of the adjacent parameter
  unless it has an allocation-site match, which comes first and is kept; the key is in the
  neighbour statistic; it is in the prefix statistic (of the prefix and the
  common-subsequence match) only if it was before; and it is in the variable-name
  statistic only if it was before or the parameter is a candidate null-terminated array
  and the adjacent parameter's name matches a keyword.
\<close>

theorem C6_adjacent_parameter_bound:
  assumes "isDefinitionWithBody FD" and "hasFunctionProtoType FD"
    and "i < length (parms FD)" and "parmKey (parms FD ! i) = Some PK"
    and "parmNeedArrayBounds (parms FD ! i)"
    and "Suc i < length (parms FD)" and "parmKey (parms FD ! Suc i) = Some LK"
    and "IsPotentialLengthVar ParamInfo (Suc i) (parms FD ! Suc i)"
    and "\<forall>j < length (parms FD). j \<noteq> i \<longrightarrow> parmKey (parms FD ! j) \<noteq> Some PK"
  shows "arrParamBody (LengthParams ParamInfo (parms FD)) (i, (parmName (parms FD ! i), PK)) ABI =
           (replaceBounds PK (CountBound LK) ABI)
             \<lparr> NeighbourParamMatch := insert PK (NeighbourParamMatch ABI) \<rparr> \<and>
         ntArrParamBody (LengthParams ParamInfo (parms FD)) (i, (parmName (parms FD ! i), PK)) ABI =
           (if fieldNameMatch (parmName (parms FD ! Suc i))
            then (replaceBounds PK (CountBound LK) ABI)
                   \<lparr> VariableNameMatch := insert PK (VariableNameMatch ABI) \<rparr>
            else ABI) \<and>
         (PK \<notin> AllocatorMatch ABI \<longrightarrow>
            BInfo (VisitFunctionDecl ParamInfo FD ABI) PK = Some (CountBound LK)) \<and>
         (PK \<in> AllocatorMatch ABI \<longrightarrow>
            BInfo (VisitFunctionDecl ParamInfo FD ABI) PK = BInfo ABI PK) \<and>
         PK \<in> NeighbourParamMatch (VisitFunctionDecl ParamInfo FD ABI) \<and>
         (PK \<in> NamePrefixMatch (VisitFunctionDecl ParamInfo FD ABI)) = (PK \<in> NamePrefixMatch ABI) \<and>
         (PK \<in> VariableNameMatch (VisitFunctionDecl ParamInfo FD ABI)) =
           (PK \<in> VariableNameMatch ABI \<or>
            parmNeedNTArrayBounds (parms FD ! i) \<and> fieldNameMatch (parmName (parms FD ! Suc i)))"
proof -
  note def = assms(1,2) and arr = assms(3,4,5) and adj = assms(6,7,8) and keys = assms(9)
  let ?ps = "parms FD"
  let ?L = "LengthParams ParamInfo ?ps"
  let ?a = "(i, (parmName (?ps ! i), PK))"
  let ?arr = "\<lambda>st a. arrParamBody ?L a st"
  let ?nt = "\<lambda>st a. ntArrParamBody ?L a st"
  have L: "map_of ?L (Suc i) = Some (parmName (?ps ! Suc i), LK)"
    using adj by (simp add: map_of_LengthParams)
  then have Lne: "?L \<noteq> []" by auto
  have step: "arrParamBody ?L ?a S =
           (replaceBounds PK (CountBound LK) S)\<lparr> NeighbourParamMatch := insert PK (NeighbourParamMatch S) \<rparr>"
    for S using adj by (rule arrParamBody_adjacent)
  have ntstep: "ntArrParamBody ?L ?a ABI =
           (if fieldNameMatch (parmName (?ps ! Suc i))
            then (replaceBounds PK (CountBound LK) ABI)
                   \<lparr> VariableNameMatch := insert PK (VariableNameMatch ABI) \<rparr>
            else ABI)"
    using L by (simp add: ntArrParamBody_def)
  have mem: "?a \<in> set (ParamArrays ?ps)"
    using arr by (simp add: in_ParamArrays)
  then obtain xs ys where split: "ParamArrays ?ps = xs @ ?a # ys"
    by (auto dest: split_list)
  have other: "snd (snd b) \<noteq> PK" if "b \<in> set xs \<union> set ys" for b
  proof -
    obtain j nm K where b: "b = (j, (nm, K))" by (cases b) auto
    from that split have "b \<in> set (ParamArrays ?ps)" by auto
    with b have j: "j < length ?ps" "parmKey (?ps ! j) = Some K"
      by (simp_all add: in_ParamArrays)
    from distinct_ParamArrays[of ?ps] split that b have "j \<noteq> i"
      by (auto simp: image_iff)
    with keys j show ?thesis by (auto simp: b)
  qed
  have oxs: "\<forall>a\<in>set xs. snd (snd a) \<noteq> PK" and oys: "\<forall>a\<in>set ys. snd (snd a) \<noteq> PK"
    using other by auto
  let ?S1 = "foldl ?arr ABI xs"
  let ?S2 = "arrParamBody ?L ?a ?S1"
  let ?S3 = "foldl ?arr ABI (ParamArrays ?ps)"
  have S3: "?S3 = foldl ?arr ?S2 ys" unfolding split by simp
  note s1 = foldl_arr_stats [of ?L ABI xs PK] and b1 = foldl_arr_other [OF oxs, of ?L ABI]
  note s3 = foldl_arr_stats [of ?L ?S2 ys PK] and b3 = foldl_arr_other [OF oys, of ?L ?S2]
  have A_alloc: "AllocatorMatch ?S3 = AllocatorMatch ABI"
    using foldl_arr_stats [of ?L ABI "ParamArrays ?ps" PK] by simp
  have S2_bound: "BInfo ?S2 PK = (if PK \<in> AllocatorMatch ABI then BInfo ABI PK else Some (CountBound LK))"
    using s1 b1 by (simp add: step BInfo_replaceBounds)
  have A_bound: "BInfo ?S3 PK = (if PK \<in> AllocatorMatch ABI then BInfo ABI PK else Some (CountBound LK))"
    using S3 b3 S2_bound by simp
  have A_nb: "PK \<in> NeighbourParamMatch ?S3"
    unfolding S3 using s3 oys by (simp add: step)
  have A_np: "(PK \<in> NamePrefixMatch ?S3) = (PK \<in> NamePrefixMatch ABI)"
    unfolding S3 using s3 s1 oxs oys by (simp add: step)
  have A_vn: "(PK \<in> VariableNameMatch ?S3) = (PK \<in> VariableNameMatch ABI)"
    unfolding S3 using s3 s1 oxs oys by (simp add: step)
  have nt: "\<forall>a\<in>set (ParamNtArrays ?ps). snd (snd a) = PK \<longrightarrow> fst a = i"
  proof (intro ballI impI)
    fix b assume b: "b \<in> set (ParamNtArrays ?ps)" "snd (snd b) = PK"
    obtain j nm K where bb: "b = (j, (nm, K))" by (cases b) auto
    with b have "j < length ?ps" "parmKey (?ps ! j) = Some PK"
      by (simp_all add: in_ParamNtArrays)
    with keys have "j = i" by auto
    then show "fst b = i" by (simp add: bb)
  qed
  have ntmem: "(\<exists>a\<in>set (ParamNtArrays ?ps). snd (snd a) = PK) = parmNeedNTArrayBounds (?ps ! i)"
  proof
    assume "\<exists>a\<in>set (ParamNtArrays ?ps). snd (snd a) = PK"
    then obtain b where b: "b \<in> set (ParamNtArrays ?ps)" "snd (snd b) = PK" by blast
    obtain j nm K where bb: "b = (j, (nm, K))" by (cases b) auto
    with b have j: "j < length ?ps" "parmKey (?ps ! j) = Some PK" "parmNeedNTArrayBounds (?ps ! j)"
      by (simp_all add: in_ParamNtArrays)
    with keys have "j = i" by auto
    with j show "parmNeedNTArrayBounds (?ps ! i)" by simp
  next
    assume "parmNeedNTArrayBounds (?ps ! i)"
    with arr have "?a \<in> set (ParamNtArrays ?ps)" by (simp add: in_ParamNtArrays)
    then show "\<exists>a\<in>set (ParamNtArrays ?ps). snd (snd a) = PK" by force
  qed
  from mem have Ane: "ParamArrays ?ps \<noteq> []" by auto
  have V: "VisitFunctionDecl ParamInfo FD ABI = foldl ?nt ?S3 (ParamNtArrays ?ps)"
    using def Ane Lne by (simp add: VisitFunctionDecl_def Let_def)
  have B1: "PK \<notin> AllocatorMatch ABI \<longrightarrow>
      BInfo (VisitFunctionDecl ParamInfo FD ABI) PK = Some (CountBound LK)"
    unfolding V using foldl_nt_bound [OF L nt, of ?S3] A_bound by simp
  have ntkeep: "BInfo (foldl ?nt S As) PK = BInfo S PK" if "PK \<in> AllocatorMatch S" for S As
    using that
  proof (induction As arbitrary: S)
    case Nil
    then show ?case by simp
  next
    case (Cons a As)
    have "BInfo (ntArrParamBody ?L a S) PK = BInfo S PK"
      using Cons.prems
      by (auto simp: ntArrParamBody_def Let_def BInfo_replaceBounds split: option.splits)
    moreover have "PK \<in> AllocatorMatch (ntArrParamBody ?L a S)" using Cons.prems by simp
    ultimately show ?case using Cons.IH [of "ntArrParamBody ?L a S"] by simp
  qed
  have B2: "PK \<in> AllocatorMatch ABI \<longrightarrow>
      BInfo (VisitFunctionDecl ParamInfo FD ABI) PK = BInfo ABI PK"
    unfolding V using ntkeep [of ?S3 "ParamNtArrays ?ps"] A_alloc A_bound by simp
  have B3: "PK \<in> NeighbourParamMatch (VisitFunctionDecl ParamInfo FD ABI)"
    unfolding V using A_nb by simp
  have B4: "(PK \<in> NamePrefixMatch (VisitFunctionDecl ParamInfo FD ABI)) = (PK \<in> NamePrefixMatch ABI)"
    unfolding V using A_np by simp
  have B5: "(PK \<in> VariableNameMatch (VisitFunctionDecl ParamInfo FD ABI)) =
           (PK \<in> VariableNameMatch ABI \<or>
            parmNeedNTArrayBounds (?ps ! i) \<and> fieldNameMatch (parmName (?ps ! Suc i)))"
    unfolding V foldl_nt_keyword [OF L nt] ntmem A_vn by simp
  from step [of ABI] ntstep B1 B2 B3 B4 B5 show ?thesis by simp
qed

theorem C6_adjacent_parameter_bound_witness:
  "IsPotentialLengthVar (Some {}) 1 (parms bufLenFunction ! 1) \<and>
   BInfo (VisitFunctionDecl (Some {}) bufLenFunction emptyABInfo) 1 = Some (CountBound 2) \<and>
   1 \<in> NeighbourParamMatch (VisitFunctionDecl (Some {}) bufLenFunction emptyABInfo) \<and>
   1 \<notin> NamePrefixMatch (VisitFunctionDecl (Some {}) bufLenFunction emptyABInfo) \<and>
   1 \<notin> VariableNameMatch (VisitFunctionDecl (Some {}) bufLenFunction emptyABInfo)"
proof -
  have len: "IsPotentialLengthVar (Some {}) (Suc 0) (parms bufLenFunction ! Suc 0)"
    by (simp add: bufLenFunction_def IsPotentialLengthVar_def isNonLengthParameter_def)
  have keys: "\<forall>j < length (parms bufLenFunction). j \<noteq> 0 \<longrightarrow>
      parmKey (parms bufLenFunction ! j) \<noteq> Some 1"
    by (auto simp: bufLenFunction_def less_Suc_eq)
  have nt: "\<not> parmNeedNTArrayBounds (parms bufLenFunction ! 0)"
    by (simp add: bufLenFunction_def)
  from C6_adjacent_parameter_bound[of bufLenFunction 0 1 2 "Some {}" emptyABInfo, OF _ _ _ _ _ _ _ len keys]
  have "BInfo (VisitFunctionDecl (Some {}) bufLenFunction emptyABInfo) 1 = Some (CountBound 2) \<and>
    1 \<in> NeighbourParamMatch (VisitFunctionDecl (Some {}) bufLenFunction emptyABInfo) \<and>
    1 \<notin> NamePrefixMatch (VisitFunctionDecl (Some {}) bufLenFunction emptyABInfo) \<and>
    1 \<notin> VariableNameMatch (VisitFunctionDecl (Some {}) bufLenFunction emptyABInfo)"
    using nt by (simp add: bufLenFunction_def emptyABInfo_def)
  with len show ?thesis by simp
qed

section \<open>Properties of the allocation-site heuristic\<close>

lemma argValsLoop_count_stays:
  "argValsLoop gv T es (RK, F, False) = (RK', F', B') \<Longrightarrow> \<not> B'"
  by (induction es arbitrary: RK F) (auto split: option.splits if_splits)

lemma argValsLoop_byte_shape:
  "argValsLoop gv T es (RK, F, B) = (RK', True, True) \<Longrightarrow>
   (\<forall>e\<in>set es. \<not> isSizeOfExpr e) \<and> length es + (if F then 1 else 0) = 1"
proof (induction es arbitrary: RK F)
  case Nil
  then show ?case by simp
next
  case (Cons e es)
  show ?case
  proof (cases "getSizeOfArg e")
    case (Some A)
    with Cons.prems show ?thesis
      by (auto split: if_splits dest: argValsLoop_count_stays)
  next
    case None
    with Cons.prems obtain K where K: "gv e = Some K" "\<not> F"
      "argValsLoop gv T es (Some K, True, B) = (RK', True, True)"
      by (auto split: option.splits if_splits)
    from Cons.IH[OF K(3)] K(2) None show ?thesis
      by (simp add: isSizeOfExpr_def)
  qed
qed

lemma sizeOperands_shape:
  "sizeOperands e = Some es \<Longrightarrow> length es = 2 \<or> (es = [e] \<and> isSizeOfExpr e)"
  by (cases e) (auto split: if_splits simp: isSizeOfExpr_def)

lemma baseExprs_shape:
  "baseExprs args idxs = Inr (Some es) \<Longrightarrow> idxs \<noteq> [] \<Longrightarrow>
   length es \<ge> 2 \<or> (\<exists>e. es = [e] \<and> isSizeOfExpr e)"
proof (cases idxs)
  case Nil
  then show "idxs \<noteq> [] \<Longrightarrow> ?thesis" by simp
next
  case (Cons i rest)
  assume "baseExprs args idxs = Inr (Some es)"
  with Cons obtain h others where h: "sizeOperands (args ! i) = Some h" "es = h @ others"
    by (auto split: if_splits option.splits sum.splits)
  from sizeOperands_shape[OF h(1)] h(2) show ?thesis
    by (cases others) auto
qed

lemma isAllocatorCall_shape:
  assumes "isAllocatorCall E = Inr (Some ArgVals)"
  shows "length ArgVals \<ge> 2 \<or> (\<exists>e. ArgVals = [e] \<and> isSizeOfExpr e)"
proof -
  from assms obtain args idxs where
    "baseExprs args idxs = Inr (Some ArgVals)" "idxs \<noteq> []"
    unfolding isAllocatorCall_def AllocatorSizeAssoc_def
    by (auto split: Expr.splits option.splits sum.splits if_splits)
  then show ?thesis by (rule baseExprs_shape)
qed

lemma handleAllocatorCall_never_byte_aux:
  "(\<exists>err. handleAllocatorCall gv gp mb T LK E ABI = Inl err) \<or>
   handleAllocatorCall gv gp mb T LK E ABI = Inr ABI \<or>
   (\<exists>RK. handleAllocatorCall gv gp mb T LK E ABI =
      Inr (mb LK (CountBound RK) (ABI\<lparr> AllocatorMatch := insert LK (AllocatorMatch ABI) \<rparr>)))"
proof (cases "isAllocatorCall E")
  case (Inl err)
  then show ?thesis by (simp add: handleAllocatorCall_def)
next
  case (Inr r)
  show ?thesis
  proof (cases r)
    case None
    with Inr show ?thesis by (simp add: handleAllocatorCall_def)
  next
    case (Some ArgVals)
    obtain RK F B where res: "argValsLoop gv T ArgVals (None, False, True) = (RK, F, B)"
      by (cases "argValsLoop gv T ArgVals (None, False, True)") auto
    have "\<not> (F \<and> B)"
    proof
      assume "F \<and> B"
      with res have "argValsLoop gv T ArgVals (None, False, True) = (RK, True, True)" by simp
      from argValsLoop_byte_shape[OF this]
      have "\<forall>e\<in>set ArgVals. \<not> isSizeOfExpr e" "length ArgVals = 1" by simp_all
      with isAllocatorCall_shape[OF Inr[unfolded Some]] show False by auto
    qed
    with Inr Some res show ?thesis
      by (cases RK; cases F; cases B) (auto simp: handleAllocatorCall_def Let_def)
  qed
qed

text \<open>
  C2 at \<open>int *p = malloc(n * sizeof(int));\<close> with \<open>n\<close> a local variable: the operand \<open>n\<close> of
  the product is under implicit conversions, \<open>isAllocatorCall\<close> asks for a \<open>DeclRefExpr\<close> or a
  \<open>sizeof\<close> node as the operand stands, and the call is not taken for an allocation: no
  bound is made, whatever the store, the scopes and \<open>mergeBounds\<close> are. The same holds for
  \<open>malloc(n * sizeof(char))\<close>.
\<close>

theorem C2_malloc_product_not_bound:
  "isAllocatorCall (mallocCall IntTy) = Inr None \<and>
   handleAllocatorCall declRefKey getProgramVar mergeBounds (PointerTy IntTy) 9 (mallocCall IntTy) ABI
     = Inr ABI \<and>
   handleAllocatorCall declRefKey getProgramVar mergeBounds (PointerTy IntTy) 9 (mallocCall CharTy) ABI
     = Inr ABI"
  by (simp add: isAllocatorCall_def handleAllocatorCall_def mallocCall_def AllocatorSizeAssoc_def
      getCalledFunctionName_def mallocDecl_def isSizeOfExpr_def)

section \<open>Properties of linking\<close>

lemma set_addConstraint [simp]: "set (addConstraint c cs) = insert c (set cs)"
  by (auto simp: addConstraint_def)

lemma set_addConstraints [simp]: "set (addConstraints new cs) = set cs \<union> set new"
  unfolding addConstraints_def by (induction new arbitrary: cs) auto

lemma set_constrainToWild:
  "set (constrainToWild V rsn psl cs) = set cs \<union> set (wildEdges rsn psl (atomsCV V))"
  by (simp add: constrainToWild_def)

lemma in_wildEdges:
  "(c \<in> set (wildEdges rsn psl as)) =
     (\<exists>v. VarAtom v \<in> set as \<and> c = Geq (VarAtom v) (ConstantAtom WildAtom) rsn psl)"
  by (induction as rule: wildEdges.induct) auto

lemma atomsCVs_set: "set (atomsCVs cs) = (\<Union>c\<in>set cs. set (atomsCV c))"
  by (induction cs) auto

lemma atomsCVss_set: "set (atomsCVss css) = (\<Union>cs\<in>set css. set (atomsCVs cs))"
  by (induction css) auto

lemma set_foldl_constrainToWild:
  "set (foldl (\<lambda>acc U. constrainToWild U rsn psl acc) cs Us) =
     set cs \<union> set (wildEdges rsn psl (atomsCVs Us))"
proof (induction Us arbitrary: cs)
  case Nil
  then show ?case by simp
next
  case (Cons U Us)
  show ?case
    by (auto simp: Cons.IH set_constrainToWild in_wildEdges)
qed

lemma atomsCVs_concat: "set (atomsCVs (concat css)) = set (atomsCVss css)"
  by (induction css) (auto simp: atomsCVs_set)

lemma set_wildExternal:
  "set (wildExternal G FuncName cs) = set cs \<union>
     set (wildEdges (''Return value of an external function:'' @ FuncName) None (atomsCVs (fvReturnVars G))) \<union>
     set (wildEdges ''Inner pointer of a parameter to external function.'' None (atomsCVss (fvParamVars G)))"
  unfolding wildExternal_def Let_def set_foldl_constrainToWild
  by (auto simp: in_wildEdges atomsCVs_concat)

lemma foldl_wildExternal_mono:
  "set cs \<subseteq> set (foldl (\<lambda>acc G. wildExternal G n acc) cs Gs)"
proof (induction Gs arbitrary: cs)
  case Nil
  then show ?case by simp
next
  case (Cons H Gs)
  have "set cs \<subseteq> set (wildExternal H n cs)" by (auto simp: set_wildExternal)
  also have "\<dots> \<subseteq> set (foldl (\<lambda>acc G. wildExternal G n acc) (wildExternal H n cs) Gs)"
    by (rule Cons.IH)
  finally show ?case by simp
qed

lemma foldl_wildExternal_in:
  "G \<in> set Gs \<Longrightarrow> set (wildExternal G n []) \<subseteq> set (foldl (\<lambda>acc G. wildExternal G n acc) cs Gs)"
proof (induction Gs arbitrary: cs)
  case Nil
  then show ?case by simp
next
  case (Cons H Gs)
  show ?case
  proof (cases "G = H")
    case True
    have "set (wildExternal G n []) \<subseteq> set (wildExternal H n cs)"
      using True by (auto simp: set_wildExternal)
    also have "\<dots> \<subseteq> set (foldl (\<lambda>acc G. wildExternal G n acc) (wildExternal H n cs) Gs)"
      by (rule foldl_wildExternal_mono)
    finally show ?thesis by simp
  next
    case False
    with Cons show ?thesis by simp
  qed
qed

lemma externLoop_mono:
  "externLoop Decls Us cs = Inr cs' \<Longrightarrow> set cs \<subseteq> set cs'"
proof (induction Us arbitrary: cs)
  case Nil
  then show ?case by simp
next
  case (Cons U Us)
  then show ?case
    using foldl_wildExternal_mono
    by (fastforce split: if_splits option.splits)
qed

lemma externLoop_wild:
  assumes "externLoop Decls Us cs = Inr cs'"
    and "(FuncName, False) \<in> set Us" and "\<not> isExternOkay FuncName"
    and "map_of Decls FuncName = Some Gs" and "G \<in> set Gs"
  shows "set (wildExternal G FuncName []) \<subseteq> set cs'"
  using assms(1,2)
proof (induction Us arbitrary: cs)
  case Nil
  then show ?case by simp
next
  case (Cons U Us)
  show ?case
  proof (cases "U = (FuncName, False)")
    case True
    with Cons.prems(1) assms(3,4)
    have rest: "externLoop Decls Us (foldl (\<lambda>acc G. wildExternal G FuncName acc) cs Gs) = Inr cs'"
      by simp
    from foldl_wildExternal_in[OF assms(5)] externLoop_mono[OF rest]
    show ?thesis by blast
  next
    case False
    with Cons.prems(2) have mem: "(FuncName, False) \<in> set Us" by auto
    from Cons.prems(1) obtain cs1 where "externLoop Decls Us cs1 = Inr cs'"
      by (auto split: if_splits option.splits)
    from Cons.IH[OF this mem] show ?thesis .
  qed
qed

lemma externLoop_total:
  "\<forall>U\<in>set Us. snd U = False \<and> \<not> isExternOkay (fst U) \<longrightarrow> map_of Decls (fst U) \<noteq> None \<Longrightarrow>
   \<exists>cs'. externLoop Decls Us cs = Inr cs'"
  by (induction Us arbitrary: cs) (auto split: option.splits)

lemma link_wild_external_aux:
  assumes "link cGeq Info = Inr Info'"
    and "(FuncName, False) \<in> set (ExternFunctions Info)" and "\<not> isExternOkay FuncName"
    and "map_of (ExternalFunctionDeclFVCons Info) FuncName = Some Gs" and "G \<in> set Gs"
  shows "set (wildExternal G FuncName []) \<subseteq> set (CS Info')"
proof -
  from assms(1) obtain cs3 cs4 where
    "externLoop (ExternalFunctionDeclFVCons Info) (ExternFunctions Info) cs3 = Inr cs4"
    "CS Info' = cs4"
    by (auto simp: link_def Let_def split: sum.splits)
  with externLoop_wild[OF this(1) assms(2-5)] show ?thesis by simp
qed


lemma foldl_grows:
  assumes "\<And>x a. set (g a) \<subseteq> set (g (f a x))"
  shows "set (g a) \<subseteq> set (g (foldl f a xs))"
proof (induction xs arbitrary: a)
  case Nil
  then show ?case by simp
next
  case (Cons x xs)
  have "set (g a) \<subseteq> set (g (f a x))" by (rule assms)
  also have "\<dots> \<subseteq> set (g (foldl f (f a x) xs))" by (rule Cons.IH)
  finally show ?case by simp
qed

lemma compareDecls_mono: "set cs \<subseteq> set (compareDecls cGeq P1 P2 cs)"
proof -
  let ?cs1 = "addConstraints (cGeq (fvReturnVars P1) (fvReturnVars P2) None Same_to_Same True) cs"
  have a: "set cs \<subseteq> set ?cs1" by simp
  have b: "set ?cs1 \<subseteq> set (foldl (\<lambda>acc i. addConstraints
                    (cGeq (fvParamVars P1 ! i) (fvParamVars P2 ! i) None Same_to_Same True) acc)
                 ?cs1 [0 ..< numParams P1])"
    by (rule foldl_grows[where g = "\<lambda>x. x"]) simp
  show ?thesis
    unfolding compareDecls_def Let_def using a b
    by (auto simp: set_constrainToWild)
qed

lemma compareDecls_wild:
  assumes "numParams P1 \<noteq> numParams P2" "fvHasProtoType P1" "fvHasProtoType P2"
  shows "set (wildEdges (''Return value of function:'' @ fvName P1) None (atomsFV P1 @ atomsFV P2))
           \<subseteq> set (compareDecls cGeq P1 P2 cs)"
  using assms unfolding compareDecls_def Let_def
  by (auto simp: set_constrainToWild in_wildEdges)

lemma declLoop_mono: "set (snd acc) \<subseteq> set (snd (declLoop cGeq P I J acc))"
proof (induction cGeq P I J acc rule: declLoop.induct)
  case (1 cGeq P I J Gap cs)
  show ?case
  proof (cases "J \<ge> length P")
    case True
    then show ?thesis by simp
  next
    case False
    note J = this
    show ?thesis
    proof (cases "fvHasBody (P ! J)")
      case True
      with J 1(1)[OF J refl refl True] show ?thesis by simp
    next
      case False
      let ?cs1 = "if \<not> fvHasBody (P ! I) \<and> \<not> fvHasBody (P ! J)
                  then compareDecls cGeq (P ! I) (P ! J) cs else cs"
      have step: "set cs \<subseteq> set ?cs1" using compareDecls_mono by auto
      show ?thesis
      proof (cases Gap)
        case True
        from 1(3)[OF J refl refl False refl] True
        have "set ?cs1 \<subseteq> set (snd (declLoop cGeq P (Suc I) J (False, ?cs1)))" by simp
        with step J False True show ?thesis
          by (simp del: declLoop.simps add: declLoop.simps[of cGeq P I J] Let_def)
      next
        case Gap: False
        from 1(2)[OF J refl refl False refl] Gap
        have "set ?cs1 \<subseteq> set (snd (declLoop cGeq P (Suc I) (Suc J) (False, ?cs1)))" by simp
        with step J False Gap show ?thesis
          by (simp del: declLoop.simps add: declLoop.simps[of cGeq P I J] Let_def)
      qed
    qed
  qed
qed

lemma declLoop_pair:
  assumes "\<not> fvHasBody P1" "\<not> fvHasBody P2"
  shows "set (compareDecls cGeq P1 P2 cs) \<subseteq> set (snd (declLoop cGeq [P1, P2] 0 1 (Gap, cs)))"
proof (cases Gap)
  case False
  with assms show ?thesis by simp
next
  case True
  have "declLoop cGeq [P1, P2] 0 1 (True, cs) =
        declLoop cGeq [P1, P2] (Suc 0) 1 (False, compareDecls cGeq P1 P2 cs)"
    using assms by (subst declLoop.simps) simp
  with declLoop_mono[of "(False, compareDecls cGeq P1 P2 cs)" cGeq "[P1, P2]" "Suc 0" 1] True
  show ?thesis by simp
qed

lemma mergeDecls_step_mono:
  "set (snd acc) \<subseteq> set (snd (if length (snd S) > 1 then declLoop cGeq (snd S) 0 1 acc else acc))"
  using declLoop_mono by auto

lemma mergeDecls_pair:
  assumes "(n, [P1, P2]) \<in> set M" "\<not> fvHasBody P1" "\<not> fvHasBody P2"
    "numParams P1 \<noteq> numParams P2" "fvHasProtoType P1" "fvHasProtoType P2"
  shows "set (wildEdges (''Return value of function:'' @ fvName P1) None (atomsFV P1 @ atomsFV P2))
           \<subseteq> set (mergeDecls cGeq M cs)"
proof -
  let ?f = "\<lambda>acc S. if length (snd S) > 1 then declLoop cGeq (snd S) 0 1 acc else acc"
  let ?W = "set (wildEdges (''Return value of function:'' @ fvName P1) None (atomsFV P1 @ atomsFV P2))"
  have "?W \<subseteq> set (snd (foldl ?f acc M))" for acc
    using assms(1)
  proof (induction M arbitrary: acc)
    case Nil
    then show ?case by simp
  next
    case (Cons S M)
    show ?case
    proof (cases "S = (n, [P1, P2])")
      case True
      obtain Gap cs0 where acc: "acc = (Gap, cs0)" by (cases acc)
      have "?W \<subseteq> set (compareDecls cGeq P1 P2 cs0)"
        by (rule compareDecls_wild[OF assms(4,5,6)])
      also have "\<dots> \<subseteq> set (snd (?f acc S))"
        using declLoop_pair[OF assms(2,3)] True acc by simp
      also have "\<dots> \<subseteq> set (snd (foldl ?f (?f acc S) M))"
        by (rule foldl_grows[where g = snd]) (rule mergeDecls_step_mono)
      finally show ?thesis by simp
    next
      case False
      with Cons.prems have "(n, [P1, P2]) \<in> set M" by auto
      from Cons.IH[OF this] show ?thesis by simp
    qed
  qed
  then show ?thesis by (simp add: mergeDecls_def)
qed

lemma link_incompatible_decls_aux:
  assumes "link cGeq Info = Inr Info'" "\<not> SeperateMultipleFuncDecls Info"
    "(n, [P1, P2]) \<in> set (ExternalFunctionDeclFVCons Info)" "\<not> fvHasBody P1" "\<not> fvHasBody P2"
    "numParams P1 \<noteq> numParams P2" "fvHasProtoType P1" "fvHasProtoType P2"
  shows "set (wildEdges (''Return value of function:'' @ fvName P1) None (atomsFV P1 @ atomsFV P2))
           \<subseteq> set (CS Info')"
proof -
  from assms(1,2) obtain cs2 cs4 where
    ext: "externLoop (ExternalFunctionDeclFVCons Info) (ExternFunctions Info)
       (mergeDecls cGeq (ExternalFunctionDeclFVCons Info) cs2) = Inr cs4" and cs: "CS Info' = cs4"
    by (auto simp: link_def Let_def split: sum.splits)
  from mergeDecls_pair[OF assms(3-8)] externLoop_mono[OF ext] cs show ?thesis by blast
qed

lemma strcpyTwice_state:
  "strcpyTwice = emptyProgramInfo\<lparr> nextVar := 6,
     Variables :=
       [(10, [FVC (MkFV ''strcpy'' [PVC (MkPV [VarAtom 0] ''strcpy'' None False None False None False)]
                [[PVC (MkPV [VarAtom 1] [] None False None False None False)],
                 [PVC (MkPV [VarAtom 2] [] None False None False None False)]] False True)]),
        (11, [PVC (MkPV [VarAtom 1] [] None False None False None False)]),
        (12, [PVC (MkPV [VarAtom 2] [] None False None False None False)]),
        (20, [FVC (MkFV ''strcpy'' [PVC (MkPV [VarAtom 3] ''strcpy'' None False None False None False)]
                [[PVC (MkPV [VarAtom 4] [] None False None False None False)],
                 [PVC (MkPV [VarAtom 5] [] None False None False None False)]] False True)]),
        (21, [PVC (MkPV [VarAtom 4] [] None False None False None False)]),
        (22, [PVC (MkPV [VarAtom 5] [] None False None False None False)])],
     ExternalFunctionDeclFVCons :=
       [(''strcpy'', [MkFV ''strcpy'' [PVC (MkPV [VarAtom 0] ''strcpy'' None False None False None False)]
                [[PVC (MkPV [VarAtom 1] [] None False None False None False)],
                 [PVC (MkPV [VarAtom 2] [] None False None False None False)]] False True])],
     ExternFunctions := [(''strcpy'', False)],
     MultipleRewrites := True \<rparr>"
  by (simp add: strcpyTwice_def strcpyDeclA_def strcpyDeclB_def emptyProgramInfo_def
      addVariable_def newFVConstraint_def newPVConstraint_def insertNewFVConstraints_def
      insertIntoExternalFunctionMap_def mapGet_def hasFVConstraint_def Let_def)

lemma gTwice_state:
  "gTwice = emptyProgramInfo\<lparr> nextVar := 3,
     Variables :=
       [(30, [FVC (MkFV ''g'' [PVC (MkPV [] ''g'' None False None False None False)]
                [[PVC (MkPV [VarAtom 0] [] None False None False None False)]] False True)]),
        (31, [PVC (MkPV [VarAtom 0] [] None False None False None False)]),
        (40, [FVC (MkFV ''g'' [PVC (MkPV [] ''g'' None False None False None False)]
                [[PVC (MkPV [VarAtom 1] [] None False None False None False)],
                 [PVC (MkPV [VarAtom 2] [] None False None False None False)]] False True)]),
        (41, [PVC (MkPV [VarAtom 1] [] None False None False None False)]),
        (42, [PVC (MkPV [VarAtom 2] [] None False None False None False)])],
     ExternalFunctionDeclFVCons :=
       [(''g'', [MkFV ''g'' [PVC (MkPV [] ''g'' None False None False None False)]
                [[PVC (MkPV [VarAtom 0] [] None False None False None False)]] False True])],
     ExternFunctions := [(''g'', False)],
     MultipleRewrites := True \<rparr>"
  by (simp add: gTwice_def gDeclA_def gDeclB_def emptyProgramInfo_def
      addVariable_def newFVConstraint_def newPVConstraint_def insertNewFVConstraints_def
      insertIntoExternalFunctionMap_def mapGet_def hasFVConstraint_def Let_def)

text \<open>
  C1 at a function without a body that is declared at two places: \<open>addVariable\<close> creates a
  function variable for each declaration, \<open>insertIntoExternalFunctionMap\<close> registers only
  the first under the name, and \<open>link\<close> forces the atoms of the first declaration (0, 1, 2)
  and adds no edge for the atoms of the second (3, 4, 5), which is in \<open>Variables\<close> at
  location 20.
\<close>

theorem C1_second_declaration_not_forced:
  "link cGeq strcpyTwice = Inr (strcpyTwice\<lparr> CS :=
      [Geq (VarAtom 0) (ConstantAtom WildAtom) ''Return value of an external function:strcpy'' None,
       Geq (VarAtom 1) (ConstantAtom WildAtom) ''Inner pointer of a parameter to external function.'' None,
       Geq (VarAtom 2) (ConstantAtom WildAtom) ''Inner pointer of a parameter to external function.'' None] \<rparr>) \<and>
   mapGet (Variables strcpyTwice) 20 =
     [FVC (MkFV ''strcpy'' [PVC (MkPV [VarAtom 3] ''strcpy'' None False None False None False)]
             [[PVC (MkPV [VarAtom 4] [] None False None False None False)],
              [PVC (MkPV [VarAtom 5] [] None False None False None False)]] False True)] \<and>
   map_of (ExternalFunctionDeclFVCons strcpyTwice) ''strcpy'' =
     Some [MkFV ''strcpy'' [PVC (MkPV [VarAtom 0] ''strcpy'' None False None False None False)]
             [[PVC (MkPV [VarAtom 1] [] None False None False None False)],
              [PVC (MkPV [VarAtom 2] [] None False None False None False)]] False True]"
  unfolding strcpyTwice_state
  by (simp add: link_def emptyProgramInfo_def Let_def mergeDecls_def isExternOkay_def
      wildExternal_def constrainToWild_def addConstraints_def addConstraint_def mapGet_def)

text \<open>
  C3 at two declarations of \<open>g\<close> with one and with two parameters, both with a prototype:
  only the first is registered under the name, so that the loop of \<open>link\<close> that compares the
  declarations of a name finds one declaration and compares nothing. No edge has the
  reason "Return value of function:g"; the only edge is the one of the last phase on the
  parameter of the first declaration (atom 0), \<open>g\<close> having no body; the atoms of the second
  declaration (1 and 2), which is in \<open>Variables\<close> at location 40, have no edge.
\<close>

theorem C3_arity_mismatch_not_forced:
  "link cGeq gTwice = Inr (gTwice\<lparr> CS :=
      [Geq (VarAtom 0) (ConstantAtom WildAtom) ''Inner pointer of a parameter to external function.'' None] \<rparr>) \<and>
   mapGet (Variables gTwice) 30 =
     [FVC (MkFV ''g'' [PVC (MkPV [] ''g'' None False None False None False)]
             [[PVC (MkPV [VarAtom 0] [] None False None False None False)]] False True)] \<and>
   mapGet (Variables gTwice) 40 =
     [FVC (MkFV ''g'' [PVC (MkPV [] ''g'' None False None False None False)]
             [[PVC (MkPV [VarAtom 1] [] None False None False None False)],
              [PVC (MkPV [VarAtom 2] [] None False None False None False)]] False True)] \<and>
   map_of (ExternalFunctionDeclFVCons gTwice) ''g'' =
     Some [MkFV ''g'' [PVC (MkPV [] ''g'' None False None False None False)]
             [[PVC (MkPV [VarAtom 0] [] None False None False None False)]] False True]"
  unfolding gTwice_state
  by (simp add: link_def emptyProgramInfo_def Let_def mergeDecls_def isExternOkay_def
      wildExternal_def constrainToWild_def addConstraints_def addConstraint_def mapGet_def)

section \<open>Properties of addVariable\<close>

lemma map_of_mapSet: "map_of (mapSet k v m) = (map_of m)(k \<mapsto> v)"
  by (induction m) (auto simp: fun_eq_iff)

lemma mapGet_mapSet: "mapGet (mapSet k v m) k' = (if k' = k then v else mapGet m k')"
  by (simp add: mapGet_def map_of_mapSet)

lemma hasFV_count: "hasFVConstraint S = (countFV S \<noteq> 0)"
  by (induction S) (auto simp: hasFVConstraint_def countFV_def)

lemma hasPV_count: "hasPVConstraint S = (countPV S \<noteq> 0)"
  by (induction S) (auto simp: hasPVConstraint_def countPV_def)

lemma newParamVars_PV:
  "newParamVars Ts k = (ps, k') \<Longrightarrow> \<forall>S\<in>set ps. \<forall>c\<in>set S. isPVConstraint c"
  by (induction Ts arbitrary: k ps k') (auto split: prod.splits)

lemma newFVConstraint_params_PV:
  "newFVConstraint n R Ps body proto k = (F, k') \<Longrightarrow> \<forall>S\<in>set (fvParamVars F). \<forall>c\<in>set S. isPVConstraint c"
  by (auto simp: newFVConstraint_def split: prod.splits dest: newParamVars_PV)

lemma insertParamVars_countFV:
  "\<forall>S\<in>set Ss. \<forall>c\<in>set S. isPVConstraint c \<Longrightarrow>
   countFV (mapGet (insertParamVars ps Ss V) L) = countFV (mapGet V L)"
proof (induction ps Ss V rule: insertParamVars.induct)
  case (1 PVD rest S Ss V)
  have "\<forall>c\<in>set S. \<not> isFVConstraint c"
    using 1(2) by (metis isFVConstraint.elims(2) isPVConstraint.simps(2) list.set_intros(1))
  then have "filter isFVConstraint S = []" by (induction S) auto
  with 1 show ?case by (simp add: mapGet_mapSet countFV_def)
qed simp_all

lemma insertParamVars_other:
  "L \<notin> pdLoc ` set ps \<Longrightarrow> mapGet (insertParamVars ps Ss V) L = mapGet V L"
  by (induction ps Ss V rule: insertParamVars.induct) (auto simp: mapGet_mapSet)

lemma insertNewFVConstraints_same [simp]:
  "Variables (insertNewFVConstraints n g b f Fs Info) = Variables Info"
  "nextVar (insertNewFVConstraints n g b f Fs Info) = nextVar Info"
  "CS (insertNewFVConstraints n g b f Fs Info) = CS Info"
  by (auto simp: insertNewFVConstraints_def split: prod.splits)

lemma addVariable_countFV:
  assumes "addVariable D Info = Inr Info'"
  shows "countFV (mapGet (Variables Info') L) =
      (if L = mkPSL D \<and> isFunctionDeclD D \<and>
          countFV (mapGet (Variables Info) L) = 0
       then 1 else countFV (mapGet (Variables Info) L))"
proof (cases D)
  case (FunctionDeclD n l rw R ps glob body fl proto)
  show ?thesis
  proof (cases "hasFVConstraint (mapGet (Variables Info) l)")
    case True
    with assms FunctionDeclD show ?thesis
      by (auto simp: addVariable_def Let_def mapGet_mapSet hasFV_count split: if_splits)
  next
    case False
    obtain F k where F: "newFVConstraint n R (map pdType ps) body proto (nextVar Info) = (F, k)"
      by (cases "newFVConstraint n R (map pdType ps) body proto (nextVar Info)") auto
    note pv = newFVConstraint_params_PV[OF F]
    from assms FunctionDeclD False F
    have V: "\<forall>L. countFV (mapGet (Variables Info') L) =
        countFV (mapGet (mapSet l (mapGet (Variables Info) l @ [FVC F])
                   (mapSet l (mapGet (Variables Info) l) (Variables Info))) L)"
      by (auto simp: addVariable_def Let_def insertParamVars_countFV[OF pv] split: if_splits)
    show ?thesis
      using False unfolding V[rule_format] FunctionDeclD
      by (auto simp: mapGet_mapSet hasFV_count countFV_def)
  qed
next
  case (VarDeclD n l rw T)
  with assms show ?thesis
    by (auto simp: addVariable_def Let_def mapGet_mapSet countFV_def split: if_splits prod.splits)
next
  case (FieldDeclD n l rw T)
  with assms show ?thesis
    by (auto simp: addVariable_def Let_def mapGet_mapSet countFV_def split: if_splits prod.splits)
next
  case (OtherDeclaratorD l rw)
  with assms show ?thesis by (simp add: addVariable_def Let_def)
qed


lemma addVariable_countPV:
  assumes "addVariable D Info = Inr Info'"
  shows "\<not> isFunctionDeclD D \<longrightarrow>
      countPV (mapGet (Variables Info') L) =
        (if L = mkPSL D \<and> isPointerDeclarator D \<and> countPV (mapGet (Variables Info) L) = 0
         then 1 else countPV (mapGet (Variables Info) L))"
    and "isFunctionDeclD D \<longrightarrow> L \<notin> paramLocs D \<longrightarrow>
      countPV (mapGet (Variables Info') L) = countPV (mapGet (Variables Info) L)"
proof -
  show "\<not> isFunctionDeclD D \<longrightarrow>
      countPV (mapGet (Variables Info') L) =
        (if L = mkPSL D \<and> isPointerDeclarator D \<and> countPV (mapGet (Variables Info) L) = 0
         then 1 else countPV (mapGet (Variables Info) L))"
    using assms
    by (cases D) (auto simp: addVariable_def Let_def mapGet_mapSet countPV_def hasPV_count
        split: if_splits prod.splits)
  show "isFunctionDeclD D \<longrightarrow> L \<notin> paramLocs D \<longrightarrow>
      countPV (mapGet (Variables Info') L) = countPV (mapGet (Variables Info) L)"
  proof (cases D)
    case (FunctionDeclD n l rw R ps glob body fl proto)
    with assms show ?thesis
      by (auto simp: addVariable_def Let_def mapGet_mapSet countPV_def insertParamVars_other
          split: if_splits prod.splits)
  qed simp_all
qed


lemma addConstraints_absorb: "set new \<subseteq> set cs \<Longrightarrow> addConstraints new cs = cs"
  unfolding addConstraints_def by (induction new arbitrary: cs) (auto simp: addConstraint_def)

lemma set_constrainAllToWild:
  "set (constrainAllToWild Vs r p cs) = set cs \<union> (\<Union>V\<in>set Vs. set (wildEdges r p (atomsCV V)))"
  unfolding constrainAllToWild_def
  by (induction Vs arbitrary: cs) (auto simp: constrainToWild_def set_addConstraints)

lemma constrainAllToWild_absorb:
  "(\<Union>V\<in>set Vs. set (wildEdges r p (atomsCV V))) \<subseteq> set cs \<Longrightarrow> constrainAllToWild Vs r p cs = cs"
  unfolding constrainAllToWild_def
  by (induction Vs arbitrary: cs) (auto simp: constrainToWild_def addConstraints_absorb)

lemma constrainAllToWild_idem:
  "constrainAllToWild Vs r p (constrainAllToWild Vs r p cs) = constrainAllToWild Vs r p cs"
  by (rule constrainAllToWild_absorb) (auto simp: set_constrainAllToWild)

lemma mapGet_mapSet_self: "mapGet (mapSet k (mapGet m k) m) L = mapGet m L"
  by (simp add: mapGet_mapSet)

text \<open>What the guarded part of addVariable does when the guard finds a variable already.\<close>

lemma addVariable_guarded:
  assumes "isFunctionDeclD D \<longrightarrow> hasFVConstraint (mapGet (Variables Info) (mkPSL D))"
    and "isPointerDeclarator D \<longrightarrow> hasPVConstraint (mapGet (Variables Info) (mkPSL D))"
    and "D \<noteq> OtherDeclaratorD (mkPSL D) (isRewritable D)"
  shows "addVariable D Info =
     Inr (Info\<lparr> Variables := mapSet (mkPSL D) (mapGet (Variables Info) (mkPSL D)) (Variables Info),
               CS := (if \<not> isRewritable D
                      then constrainAllToWild (mapGet (Variables Info) (mkPSL D))
                             ''Pointer in Macro declaration.'' None (CS Info)
                      else CS Info) \<rparr>)"
  using assms
  by (cases D) (auto simp: addVariable_def Let_def mapGet_mapSet)

lemma addVariable_CS:
  assumes "addVariable D Info = Inr Info1"
  shows "CS Info1 = (if \<not> isRewritable D
                      then constrainAllToWild (mapGet (Variables Info1) (mkPSL D))
                             ''Pointer in Macro declaration.'' None (CS Info)
                      else CS Info)"
  using assms
  by (cases D) (auto simp: addVariable_def Let_def split: if_splits prod.splits)

lemma addVariable_not_other:
  "addVariable D Info = Inr Info1 \<Longrightarrow> D \<noteq> OtherDeclaratorD (mkPSL D) (isRewritable D)"
  by (cases D) (auto simp: addVariable_def Let_def)

lemma addVariable_repeat:
  assumes "addVariable D Info = Inr Info1"
  shows "\<exists>Info2. addVariable D Info1 = Inr Info2 \<and>
           (\<forall>L. mapGet (Variables Info2) L = mapGet (Variables Info1) L) \<and>
           nextVar Info2 = nextVar Info1 \<and> CS Info2 = CS Info1"
proof -
  have fv: "isFunctionDeclD D \<longrightarrow> hasFVConstraint (mapGet (Variables Info1) (mkPSL D))"
    using addVariable_countFV[OF assms, of "mkPSL D"] by (auto simp: hasFV_count)
  have pv: "isPointerDeclarator D \<longrightarrow> hasPVConstraint (mapGet (Variables Info1) (mkPSL D))"
  proof
    assume p: "isPointerDeclarator D"
    then have "\<not> isFunctionDeclD D" by (cases D) auto
    with addVariable_countPV(1)[OF assms, of "mkPSL D"] p
    show "hasPVConstraint (mapGet (Variables Info1) (mkPSL D))"
      by (auto simp: hasPV_count split: if_splits)
  qed
  note second = addVariable_guarded[OF fv pv addVariable_not_other[OF assms]]
  show ?thesis
    unfolding second using addVariable_CS[OF assms]
    by (auto simp: mapGet_mapSet constrainAllToWild_idem)
qed

lemma addVariables_countFV:
  "addVariables Ds Info = Inr Info' \<Longrightarrow> \<forall>L. countFV (mapGet (Variables Info) L) \<le> 1 \<Longrightarrow>
   countFV (mapGet (Variables Info') L) \<le> 1"
proof (induction Ds arbitrary: Info)
  case Nil
  then show ?case by simp
next
  case (Cons D Ds)
  from Cons.prems(1) obtain Info1 where 1: "addVariable D Info = Inr Info1"
    and 2: "addVariables Ds Info1 = Inr Info'"
    by (auto split: sum.splits)
  have "\<forall>L. countFV (mapGet (Variables Info1) L) \<le> 1"
    using addVariable_countFV[OF 1] Cons.prems(2) by auto
  from Cons.IH[OF 2 this] show ?case .
qed

lemma addVariables_countPV:
  "addVariables Ds Info = Inr Info' \<Longrightarrow> \<forall>D\<in>set Ds. L \<notin> paramLocs D \<Longrightarrow>
   countPV (mapGet (Variables Info) L) \<le> 1 \<Longrightarrow> countPV (mapGet (Variables Info') L) \<le> 1"
proof (induction Ds arbitrary: Info)
  case Nil
  then show ?case by simp
next
  case (Cons D Ds)
  from Cons.prems(1) obtain Info1 where 1: "addVariable D Info = Inr Info1"
    and 2: "addVariables Ds Info1 = Inr Info'"
    by (auto split: sum.splits)
  have "countPV (mapGet (Variables Info1) L) \<le> 1"
    using addVariable_countPV[OF 1, of L] Cons.prems(2,3) by (cases "isFunctionDeclD D") auto
  from Cons.IH[OF 2 _ this] Cons.prems(2) show ?case by simp
qed

text \<open>
  C10, as stated: the entry of a location never holds more than one pointer-shaped variable.
  Calling \<open>addVariable\<close> with the declaration of the parameter \<open>p\<close> (location 1) and then with
  the function declaration \<open>f\<close>, whose parameter \<open>p\<close> is at location 1, leaves two
  pointer-shaped variables in the entry of location 1: the parameter variables of a
  function variable just created are inserted at the parameters' locations without the
  check.
\<close>

theorem C10_parameter_insertion_counterexample:
  "map_sum id (\<lambda>Info. countPV (mapGet (Variables Info) 1))
     (addVariables [pVarDecl, fFunctionDecl] emptyProgramInfo) = Inr 2"
  by (simp add: pVarDecl_def fFunctionDecl_def emptyProgramInfo_def addVariable_def Let_def
        mapGet_def hasPVConstraint_def hasFVConstraint_def newPVConstraint_def
        newFVConstraint_def insertNewFVConstraints_def insertIntoExternalFunctionMap_def
        countPV_def)

text \<open>
  C10, amended: \<open>addVariable\<close> adds a function-shaped variable for a function declaration,
  and a pointer-shaped variable for a pointer- or array-typed variable or field, to the
  entry of the declaration's location only when the entry holds none of that shape. So,
  over any sequence of calls that returns: if no entry held more than one function-shaped
  variable before, none does after; the entry of a location that is not the location of a
  parameter of a function declaration in the sequence holds at most one pointer-shaped
  variable after if it did before; and a call repeated at once is accepted and changes
  neither an entry, nor the counter of unknowns, nor the constraints.
\<close>

theorem C10_addVariable_guard:
  "(addVariables Ds Info = Inr Info' \<and> (\<forall>L. countFV (mapGet (Variables Info) L) \<le> 1) \<longrightarrow>
      (\<forall>L. countFV (mapGet (Variables Info') L) \<le> 1)) \<and>
   (addVariables Ds Info = Inr Info' \<and> (\<forall>D\<in>set Ds. L \<notin> paramLocs D) \<and>
      countPV (mapGet (Variables Info) L) \<le> 1 \<longrightarrow>
      countPV (mapGet (Variables Info') L) \<le> 1) \<and>
   (addVariable D Info = Inr Info1 \<longrightarrow>
      (\<exists>Info2. addVariable D Info1 = Inr Info2 \<and>
           (\<forall>L. mapGet (Variables Info2) L = mapGet (Variables Info1) L) \<and>
           nextVar Info2 = nextVar Info1 \<and> CS Info2 = CS Info1))"
  using addVariables_countFV addVariables_countPV addVariable_repeat by blast

lemma addVariables_twice:
  "addVariables [pVarDecl, pVarDecl] emptyProgramInfo = Inr onePInfo"
  by (simp add: pVarDecl_def emptyProgramInfo_def addVariable_def Let_def onePInfo_def
        mapGet_def hasPVConstraint_def newPVConstraint_def)

text \<open>The variable \<open>p\<close> declared twice at location 1: one pointer-shaped variable.\<close>

theorem C10_addVariable_guard_witness:
  "addVariables [pVarDecl, pVarDecl] emptyProgramInfo = Inr onePInfo \<and>
   countPV (mapGet (Variables onePInfo) 1) \<le> 1"
proof -
  have pre: "addVariables [pVarDecl, pVarDecl] emptyProgramInfo = Inr onePInfo \<and>
      (\<forall>D\<in>set [pVarDecl, pVarDecl]. 1 \<notin> paramLocs D) \<and>
      countPV (mapGet (Variables emptyProgramInfo) 1) \<le> 1"
    using addVariables_twice by (simp add: pVarDecl_def emptyProgramInfo_def mapGet_def countPV_def)
  from C10_addVariable_guard[of "[pVarDecl, pVarDecl]" emptyProgramInfo onePInfo 1] pre
  have "countPV (mapGet (Variables onePInfo) 1) \<le> 1" by blast
  with addVariables_twice show ?thesis by blast
qed

section \<open>Properties of the root-cause analysis\<close>

lemma fst_set_mapSet: "fst ` set (mapSet k v m) = insert k (fst ` set m)"
  by (simp add: dom_map_of_conv_image_fst[symmetric] map_of_mapSet)

lemma strictKeys_mapSet: "strictKeys m \<Longrightarrow> strictKeys (mapSet k v m)"
proof (induction m)
  case Nil
  then show ?case by (simp add: strictKeys_def)
next
  case (Cons p m)
  obtain k' v' where p: "p = (k', v')" by (cases p)
  from Cons.prems have tl: "strictKeys m" and hd: "\<forall>x\<in>fst ` set m. k' < x"
    by (auto simp: strictKeys_def p)
  show ?case
  proof (cases "k = k'")
    case True
    with Cons.prems show ?thesis by (simp add: strictKeys_def p)
  next
    case False
    show ?thesis
    proof (cases "k < k'")
      case True
      with Cons.prems False show ?thesis by (auto simp: strictKeys_def p)
    next
      case F: False
      with False have "k' < k" by simp
      with Cons.IH[OF tl] hd F False show ?thesis
        using fst_set_mapSet[of k v m]
        by (auto simp: strictKeys_def p)
    qed
  qed
qed

lemma strictKeys_mapErase: "strictKeys m \<Longrightarrow> strictKeys (mapErase k m)"
  unfolding strictKeys_def mapErase_def
  by (induction m) auto

lemma strictKeys_relabel: "strictKeys m \<Longrightarrow> strictKeys (relabel a b m)"
  unfolding strictKeys_def relabel_def by (simp add: comp_def)

lemma strictKeys_distinct: "strictKeys m \<Longrightarrow> distinct (map fst m)"
  unfolding strictKeys_def by (simp add: strict_sorted_iff)

lemma strictKeys_in_set: "strictKeys m \<Longrightarrow> ((k, v) \<in> set m) = (map_of m k = Some v)"
  using strictKeys_distinct by (metis map_of_eq_Some_iff)

lemma map_of_mapErase: "map_of (mapErase k m) = (map_of m)(k := None)"
  unfolding mapErase_def by (induction m) (auto simp: fun_eq_iff)

lemma map_of_relabel:
  "map_of (relabel Old New L) k = map_option (\<lambda>l. if l = Old then New else l) (map_of L k)"
  unfolding relabel_def by (induction L) auto

lemma wfDS_AddElements:
  assumes "wfDS DS"
  shows "wfDS (AddElements a b DS)"
proof -
  let ?L = "map_of (Leaders DS)" and ?G = "map_of (Groups DS)"
  from assms have sk: "strictKeys (Leaders DS)" "strictKeys (Groups DS)"
    and iff: "\<And>k l. (?L k = Some l) = (\<exists>S. ?G l = Some S \<and> k \<in> S)"
    and own: "\<And>l S. ?G l = Some S \<Longrightarrow> l \<in> S"
    by (auto simp: wfDS_def)
  have notin: "\<And>k l S. ?L k = None \<Longrightarrow> ?G l = Some S \<Longrightarrow> k \<notin> S"
    using iff by (metis option.distinct(1))
  show ?thesis
  proof (cases "?L a")
    case None
    note La = this
    show ?thesis
    proof (cases "?L b")
      case None
      have Ga: "?G a = None"
        using own[of a] iff[of a a] La by (cases "?G a") auto
      show ?thesis
        unfolding wfDS_def AddElements_def La None
        using sk iff own La None Ga notin[OF La] notin[OF None]
        by (auto simp: strictKeys_mapSet map_of_mapSet split: if_splits)
    next
      case (Some lb)
      then obtain Sb where Sb: "?G lb = Some Sb" "b \<in> Sb" using iff by auto
      show ?thesis
        unfolding wfDS_def AddElements_def La Some
        using sk iff own La Some Sb notin[OF La]
        by (auto simp: strictKeys_mapSet map_of_mapSet groupOf_def split: if_splits)
    qed
  next
    case (Some la)
    note La = this
    then obtain Sa where Sa: "?G la = Some Sa" "a \<in> Sa" using iff by auto
    show ?thesis
    proof (cases "?L b")
      case None
      show ?thesis
        unfolding wfDS_def AddElements_def La None
        using sk iff own La None Sa notin[OF None]
        by (auto simp: strictKeys_mapSet map_of_mapSet groupOf_def split: if_splits)
    next
      case (Some lb)
      then obtain Sb where Sb: "?G lb = Some Sb" "b \<in> Sb" using iff by auto
      show ?thesis
      proof (cases "la = lb")
        case True
        with assms show ?thesis by (simp add: AddElements_def La Some)
      next
        case False
        have 1: "strictKeys (relabel lb la (Leaders DS))"
          using sk by (simp add: strictKeys_relabel)
        have 2: "strictKeys (mapErase lb (mapSet la (Sa \<union> Sb) (Groups DS)))"
          using sk by (simp add: strictKeys_mapErase strictKeys_mapSet)
        have 3: "(map_of (relabel lb la (Leaders DS)) k = Some l) =
            (\<exists>S. map_of (mapErase lb (mapSet la (Sa \<union> Sb) (Groups DS))) l = Some S \<and> k \<in> S)" for k l
        proof (cases "l = la")
          case True
          have "(map_of (relabel lb la (Leaders DS)) k = Some la) = (?L k = Some la \<or> ?L k = Some lb)"
            by (cases "?L k") (auto simp: map_of_relabel)
          also have "\<dots> = (k \<in> Sa \<union> Sb)" using iff[of k la] iff[of k lb] Sa Sb by auto
          finally show ?thesis using True False by (simp add: map_of_mapErase map_of_mapSet)
        next
          case Fl: False
          show ?thesis
          proof (cases "l = lb")
            case True
            have "map_of (relabel lb la (Leaders DS)) k \<noteq> Some lb"
              using False by (cases "?L k") (auto simp: map_of_relabel)
            with True show ?thesis by (simp add: map_of_mapErase)
          next
            case False
            have "(map_of (relabel lb la (Leaders DS)) k = Some l) = (?L k = Some l)"
              using False Fl by (cases "?L k") (auto simp: map_of_relabel)
            with iff[of k l] False Fl show ?thesis
              by (simp add: map_of_mapErase map_of_mapSet)
          qed
        qed
        have 4: "map_of (mapErase lb (mapSet la (Sa \<union> Sb) (Groups DS))) l = Some S \<longrightarrow> l \<in> S" for l S
          using own[of l S] own[OF Sa(1)] by (auto simp: map_of_mapErase map_of_mapSet split: if_splits)
        show ?thesis
          unfolding wfDS_def AddElements_def La Some
          using False 1 2 3 4 Sa Sb by (simp add: groupOf_def)
      qed
    qed
  qed
qed


lemma Leaders_AddElements:
  "map_of (Leaders (AddElements a b DS)) k =
     (case (map_of (Leaders DS) a, map_of (Leaders DS) b) of
        (Some la, Some lb) \<Rightarrow> map_option (\<lambda>l. if l = lb then la else l) (map_of (Leaders DS) k)
      | (Some la, None) \<Rightarrow> ((map_of (Leaders DS))(b \<mapsto> la)) k
      | (None, Some lb) \<Rightarrow> ((map_of (Leaders DS))(a \<mapsto> lb)) k
      | (None, None) \<Rightarrow> ((map_of (Leaders DS))(a \<mapsto> a, b \<mapsto> a)) k)"
  by (cases "map_of (Leaders DS) k")
     (auto simp: AddElements_def map_of_relabel map_of_mapSet split: option.splits)

lemma sameGroup_AddElements_new: "sameGroup (AddElements a b DS) a b"
  unfolding sameGroup_def Leaders_AddElements
  by (auto split: option.splits)

lemma sameGroup_AddElements_keep:
  assumes "sameGroup DS x y"
  shows "sameGroup (AddElements a b DS) x y"
proof -
  from assms obtain l where l: "map_of (Leaders DS) x = Some l" "map_of (Leaders DS) y = Some l"
    by (auto simp: sameGroup_def)
  show ?thesis
    unfolding sameGroup_def Leaders_AddElements
    by (cases "map_of (Leaders DS) a"; cases "map_of (Leaders DS) b") (use l in auto)
qed

lemma Leaders_adjustLeader:
  "map_of (Leaders (adjustLeader r DS)) k =
     (case map_of (Leaders DS) r of
        None \<Rightarrow> map_of (Leaders DS) k
      | Some Old \<Rightarrow>
          if map_of (RealWildPtrsWithReasons DS) Old = None
          then map_option (\<lambda>l. if l = Old then r else l) (map_of (Leaders DS) k)
          else map_of (Leaders DS) k)"
  by (auto simp: adjustLeader_def map_of_relabel split: option.splits)

lemma Reasons_adjustLeader [simp]:
  "RealWildPtrsWithReasons (adjustLeader r DS) = RealWildPtrsWithReasons DS"
  by (auto simp: adjustLeader_def split: option.splits)

lemma sameGroup_adjustLeader_keep:
  assumes "sameGroup DS x y"
  shows "sameGroup (adjustLeader r DS) x y"
proof -
  from assms obtain l where l: "map_of (Leaders DS) x = Some l" "map_of (Leaders DS) y = Some l"
    by (auto simp: sameGroup_def)
  show ?thesis
    unfolding sameGroup_def Leaders_adjustLeader
    by (cases "map_of (Leaders DS) r") (use l in auto)
qed

lemma wfDS_adjustLeader:
  assumes "wfDS DS" and r: "map_of (RealWildPtrsWithReasons DS) r \<noteq> None"
  shows "wfDS (adjustLeader r DS)"
proof (cases "map_of (Leaders DS) r")
  case None
  with assms show ?thesis by (simp add: adjustLeader_def)
next
  case (Some Old)
  let ?L = "map_of (Leaders DS)" and ?G = "map_of (Groups DS)"
  from assms have sk: "strictKeys (Leaders DS)" "strictKeys (Groups DS)"
    and iff: "\<And>k l. (?L k = Some l) = (\<exists>S. ?G l = Some S \<and> k \<in> S)"
    and own: "\<And>l S. ?G l = Some S \<Longrightarrow> l \<in> S"
    by (auto simp: wfDS_def)
  show ?thesis
  proof (cases "map_of (RealWildPtrsWithReasons DS) Old = None")
    case False
    with assms Some show ?thesis by (auto simp: adjustLeader_def)
  next
    case True
    with r have ne: "r \<noteq> Old" by auto
    from Some obtain So where So: "?G Old = Some So" "r \<in> So" using iff by auto
    have Gr: "?G r = None"
    proof (cases "?G r")
      case (Some S)
      from own[OF this] iff[of r r] Some have "?L r = Some r" by auto
      with \<open>?L r = Some Old\<close> ne show ?thesis by simp
    qed simp
    let ?L' = "relabel Old r (Leaders DS)"
    let ?G' = "mapErase Old (mapSet r (insert r ({} \<union> So)) (Groups DS))"
    have 1: "strictKeys ?L'" using sk by (simp add: strictKeys_relabel)
    have 2: "strictKeys ?G'" using sk by (simp add: strictKeys_mapErase strictKeys_mapSet)
    have 3: "(map_of ?L' k = Some l) = (\<exists>S. map_of ?G' l = Some S \<and> k \<in> S)" for k l
    proof (cases "l = r")
      case True
      have "(map_of ?L' k = Some r) = (?L k = Some r \<or> ?L k = Some Old)"
        by (cases "?L k") (auto simp: map_of_relabel)
      also have "\<dots> = (k \<in> So)" using iff[of k r] iff[of k Old] So Gr by auto
      finally show ?thesis using True ne So by (auto simp: map_of_mapErase map_of_mapSet)
    next
      case Fl: False
      show ?thesis
      proof (cases "l = Old")
        case True
        have "map_of ?L' k \<noteq> Some Old"
          using ne by (cases "?L k") (auto simp: map_of_relabel)
        with True show ?thesis by (simp add: map_of_mapErase)
      next
        case False
        have "(map_of ?L' k = Some l) = (?L k = Some l)"
          using False Fl by (cases "?L k") (auto simp: map_of_relabel)
        with iff[of k l] False Fl show ?thesis
          by (simp add: map_of_mapErase map_of_mapSet)
      qed
    qed
    have 4: "map_of ?G' l = Some S \<longrightarrow> l \<in> S" for l S
      using own[of l S] by (auto simp: map_of_mapErase map_of_mapSet split: if_splits)
    show ?thesis
      unfolding wfDS_def adjustLeader_def Some
      using True 1 2 3 4 So Gr by (simp add: groupOf_def)
  qed
qed

lemma wildLed_adjustLeader_keep:
  assumes "map_of (RealWildPtrsWithReasons DS) r \<noteq> None" "wildLed DS w"
  shows "wildLed (adjustLeader r DS) w"
proof -
  from assms(2) obtain l where l: "map_of (Leaders DS) w = Some l"
      "map_of (RealWildPtrsWithReasons DS) l \<noteq> None"
    by (auto simp: wildLed_def)
  show ?thesis
    unfolding wildLed_def Leaders_adjustLeader Reasons_adjustLeader
    by (cases "map_of (Leaders DS) r") (use l assms(1) in auto)
qed

lemma wildLed_adjustLeader_new:
  "map_of (RealWildPtrsWithReasons DS) r \<noteq> None \<Longrightarrow> map_of (Leaders DS) r \<noteq> None \<Longrightarrow>
   wildLed (adjustLeader r DS) r"
  unfolding wildLed_def Leaders_adjustLeader
  by (auto split: option.splits)

lemma dom_Leaders_adjustLeader:
  "(map_of (Leaders (adjustLeader r DS)) k = None) = (map_of (Leaders DS) k = None)"
  unfolding Leaders_adjustLeader by (auto split: option.splits)

lemma foldl_adjustLeader:
  assumes "\<forall>r\<in>set rs. map_of (RealWildPtrsWithReasons DS) r \<noteq> None" "wfDS DS"
  shows "wfDS (foldl (\<lambda>acc r. adjustLeader r acc) DS rs) \<and>
     RealWildPtrsWithReasons (foldl (\<lambda>acc r. adjustLeader r acc) DS rs) = RealWildPtrsWithReasons DS \<and>
     (\<forall>x y. sameGroup DS x y \<longrightarrow> sameGroup (foldl (\<lambda>acc r. adjustLeader r acc) DS rs) x y) \<and>
     (\<forall>w. wildLed DS w \<longrightarrow> wildLed (foldl (\<lambda>acc r. adjustLeader r acc) DS rs) w) \<and>
     (\<forall>r\<in>set rs. map_of (Leaders DS) r \<noteq> None \<longrightarrow>
          wildLed (foldl (\<lambda>acc r. adjustLeader r acc) DS rs) r) \<and>
     (\<forall>k. (map_of (Leaders (foldl (\<lambda>acc r. adjustLeader r acc) DS rs)) k = None) =
          (map_of (Leaders DS) k = None))"
  using assms
proof (induction rs arbitrary: DS)
  case Nil
  then show ?case by simp
next
  case (Cons r rs)
  let ?D = "adjustLeader r DS"
  from Cons.prems have r: "map_of (RealWildPtrsWithReasons DS) r \<noteq> None" by simp
  have wf: "wfDS ?D" using wfDS_adjustLeader[OF Cons.prems(2) r] .
  have pre: "\<forall>r\<in>set rs. map_of (RealWildPtrsWithReasons ?D) r \<noteq> None"
    using Cons.prems(1) by simp
  note IH = Cons.IH[OF pre wf]
  show ?case
  proof (intro conjI allI impI ballI)
    show "wfDS (foldl (\<lambda>acc r. adjustLeader r acc) DS (r # rs))" using IH by simp
    show "RealWildPtrsWithReasons (foldl (\<lambda>acc r. adjustLeader r acc) DS (r # rs)) =
        RealWildPtrsWithReasons DS" using IH by simp
  next
    fix x y assume "sameGroup DS x y"
    then have "sameGroup ?D x y" by (rule sameGroup_adjustLeader_keep)
    with IH show "sameGroup (foldl (\<lambda>acc r. adjustLeader r acc) DS (r # rs)) x y" by simp
  next
    fix w assume "wildLed DS w"
    then have "wildLed ?D w" using wildLed_adjustLeader_keep[OF r] by simp
    with IH show "wildLed (foldl (\<lambda>acc r. adjustLeader r acc) DS (r # rs)) w" by simp
  next
    fix q assume q: "q \<in> set (r # rs)" "map_of (Leaders DS) q \<noteq> None"
    show "wildLed (foldl (\<lambda>acc r. adjustLeader r acc) DS (r # rs)) q"
    proof (cases "q = r")
      case True
      with q have "wildLed ?D r" using wildLed_adjustLeader_new[OF r] by simp
      with IH True show ?thesis by simp
    next
      case False
      with q have "q \<in> set rs" by simp
      moreover have "map_of (Leaders ?D) q \<noteq> None"
        using q(2) by (simp add: dom_Leaders_adjustLeader)
      ultimately show ?thesis using IH by simp
    qed
  next
    fix k
    show "(map_of (Leaders (foldl (\<lambda>acc r. adjustLeader r acc) DS (r # rs))) k = None) =
          (map_of (Leaders DS) k = None)"
      using IH by (simp add: dom_Leaders_adjustLeader)
  qed
qed


lemma directWild_iff:
  "(v \<in> directWild cs) = (\<exists>rsn loc. Geq (VarAtom v) (ConstantAtom WildAtom) rsn loc \<in> set cs)"
  by (induction cs) (auto split: Constraint.splits Atom.splits ConstAtom.splits)

lemma strictKeys_recordWild: "strictKeys R \<Longrightarrow> strictKeys (recordWild v rsn loc R)"
  by (simp add: recordWild_def strictKeys_mapSet)

lemma keys_recordWild: "fst ` set (recordWild v rsn loc R) = insert v (fst ` set R)"
  by (simp add: recordWild_def fst_set_mapSet)

lemma wfDS_Reasons_update [simp]: "wfDS (DS\<lparr> RealWildPtrsWithReasons := R \<rparr>) = wfDS DS"
  by (simp add: wfDS_def)

lemma sameGroup_Reasons_update [simp]:
  "sameGroup (DS\<lparr> RealWildPtrsWithReasons := R \<rparr>) x y = sameGroup DS x y"
  by (simp add: sameGroup_def)

lemma Reasons_AddElements [simp]:
  "RealWildPtrsWithReasons (AddElements a b DS) = RealWildPtrsWithReasons DS"
  by (auto simp: AddElements_def split: option.splits)

lemma scanConstraints_inv:
  assumes "scanConstraints cs (DS, W) = Inr (DS', W')" "wfDS DS"
    "strictKeys (RealWildPtrsWithReasons DS)"
  shows "wfDS DS' \<and> strictKeys (RealWildPtrsWithReasons DS') \<and> W' = W \<union> directWild cs \<and>
     fst ` set (RealWildPtrsWithReasons DS') = fst ` set (RealWildPtrsWithReasons DS) \<union> directWild cs \<and>
     (\<forall>x y. sameGroup DS x y \<longrightarrow> sameGroup DS' x y) \<and>
     (\<forall>a b rsn loc. Geq (VarAtom a) (VarAtom b) rsn loc \<in> set cs \<longrightarrow> sameGroup DS' a b)"
  using assms
proof (induction cs arbitrary: DS W)
  case Nil
  then show ?case by simp
next
  case (Cons c cs)
  show ?case
  proof (cases c)
    case (Implies p q)
    with Cons.prems have "scanConstraints cs (DS, W) = Inr (DS', W')" by simp
    from Cons.IH[OF this Cons.prems(2,3)] Implies show ?thesis by simp
  next
    case (Geq lhs rhs rsn loc)
    show ?thesis
    proof (cases "rhs = ConstantAtom WildAtom")
      case True
      with Cons.prems(1) Geq obtain v where v: "lhs = VarAtom v"
        and rec: "scanConstraints cs
               (DS\<lparr> RealWildPtrsWithReasons := recordWild v rsn loc (RealWildPtrsWithReasons DS) \<rparr>,
                insert v W) = Inr (DS', W')"
        by (cases lhs) auto
      have "wfDS (DS\<lparr> RealWildPtrsWithReasons := recordWild v rsn loc (RealWildPtrsWithReasons DS) \<rparr>)"
        using Cons.prems(2) by simp
      moreover have "strictKeys (RealWildPtrsWithReasons
          (DS\<lparr> RealWildPtrsWithReasons := recordWild v rsn loc (RealWildPtrsWithReasons DS) \<rparr>))"
        using Cons.prems(3) by (simp add: strictKeys_recordWild)
      ultimately show ?thesis
        using Cons.IH[OF rec] Geq True v by (auto simp: keys_recordWild)
    next
      case False
      show ?thesis
      proof (cases rhs)
        case (ConstantAtom k)
        with False Cons.prems(1) Geq have "scanConstraints cs (DS, W) = Inr (DS', W')" by simp
        from Cons.IH[OF this Cons.prems(2,3)] Geq ConstantAtom False show ?thesis
          by (auto split: ConstAtom.splits Atom.splits)
      next
        case (VarAtom r)
        with Cons.prems(1) Geq obtain v where v: "lhs = VarAtom v"
          and rec: "scanConstraints cs (AddElements v r DS, W) = Inr (DS', W')"
          by (cases lhs) auto
        have wf: "wfDS (AddElements v r DS)" using Cons.prems(2) by (rule wfDS_AddElements)
        have sk: "strictKeys (RealWildPtrsWithReasons (AddElements v r DS))"
          using Cons.prems(3) by simp
        note IH = Cons.IH[OF rec wf sk]
        have new: "sameGroup DS' v r"
          using IH sameGroup_AddElements_new[of v r DS] by blast
        have keep: "sameGroup DS x y \<Longrightarrow> sameGroup DS' x y" for x y
          using IH sameGroup_AddElements_keep[of DS x y v r] by blast
        show ?thesis using IH new keep Geq VarAtom v by auto
      qed
    qed
  qed
qed

lemma wfDS_Cleared: "wfDS ClearedDisjointSet"
  by (simp add: wfDS_def ClearedDisjointSet_def strictKeys_def)

lemma wfDS_outputs [simp]:
  "wfDS (DS\<lparr> TotalNonDirectWildPointers := T, AllWildPtrs := A \<rparr>) = wfDS DS"
  by (simp add: wfDS_def)

lemma computePointerDisjointSet_correct:
  assumes "computePointerDisjointSet cs = Inr DS"
  shows "(\<forall>a b rsn loc. Geq (VarAtom a) (VarAtom b) rsn loc \<in> set cs \<longrightarrow> sameGroup DS a b) \<and>
     (\<forall>k l. (map_of (Leaders DS) k = Some l) = (\<exists>S. (l, S) \<in> set (Groups DS) \<and> k \<in> S)) \<and>
     (\<forall>l S. (l, S) \<in> set (Groups DS) \<and> S \<inter> directWild cs \<noteq> {} \<longrightarrow> l \<in> directWild cs \<and> l \<in> S) \<and>
     TotalNonDirectWildPointers DS =
       \<Union> {S. \<exists>l. (l, S) \<in> set (Groups DS) \<and> S \<inter> directWild cs \<noteq> {}} - directWild cs"
proof -
  from assms obtain DS0 W where scan: "scanConstraints cs (ClearedDisjointSet, {}) = Inr (DS0, W)"
    by (auto simp: computePointerDisjointSet_def split: sum.splits)
  let ?D1 = "foldl (\<lambda>acc r. adjustLeader r acc) DS0 (map fst (RealWildPtrsWithReasons DS0))"
  from assms scan have DS: "DS = ?D1\<lparr> TotalNonDirectWildPointers :=
        \<Union> (snd ` {Gm \<in> set (Groups ?D1). map_of (RealWildPtrsWithReasons ?D1) (fst Gm) \<noteq> None}) - W,
        AllWildPtrs := \<Union> ((\<lambda>G. snd G \<inter> W) ` set (Groups ?D1)) \<rparr>"
    by (simp add: computePointerDisjointSet_def Let_def)
  have inv0: "wfDS DS0" "strictKeys (RealWildPtrsWithReasons DS0)" "W = directWild cs"
    "fst ` set (RealWildPtrsWithReasons DS0) = directWild cs"
    "\<forall>a b rsn loc. Geq (VarAtom a) (VarAtom b) rsn loc \<in> set cs \<longrightarrow> sameGroup DS0 a b"
    using scanConstraints_inv[OF scan wfDS_Cleared] by (simp_all add: ClearedDisjointSet_def strictKeys_def)
  have domR: "(map_of (RealWildPtrsWithReasons DS0) k \<noteq> None) = (k \<in> directWild cs)" for k
    using inv0(4) by (metis domIff dom_map_of_conv_image_fst)
  have pre: "\<forall>r\<in>set (map fst (RealWildPtrsWithReasons DS0)). map_of (RealWildPtrsWithReasons DS0) r \<noteq> None"
    using domR inv0(4) by auto
  note F = foldl_adjustLeader[OF pre inv0(1)]
  from F have wf1: "wfDS ?D1" and R1: "RealWildPtrsWithReasons ?D1 = RealWildPtrsWithReasons DS0"
    by simp_all
  from wf1 have sk: "strictKeys (Groups ?D1)"
    and iff: "\<And>k l. (map_of (Leaders ?D1) k = Some l) = (\<exists>S. map_of (Groups ?D1) l = Some S \<and> k \<in> S)"
    and own: "\<And>l S. map_of (Groups ?D1) l = Some S \<Longrightarrow> l \<in> S"
    by (auto simp: wfDS_def)
  have inG: "((l, S) \<in> set (Groups ?D1)) = (map_of (Groups ?D1) l = Some S)" for l S
    using strictKeys_in_set[OF sk] .
  have led: "l \<in> directWild cs \<and> l \<in> S" if "(l, S) \<in> set (Groups ?D1)" "S \<inter> directWild cs \<noteq> {}" for l S
  proof -
    from that obtain w where w: "w \<in> S" "w \<in> directWild cs" by auto
    from that(1) have G: "map_of (Groups ?D1) l = Some S" by (simp add: inG)
    with w iff have Lw: "map_of (Leaders ?D1) w = Some l" by auto
    then have "map_of (Leaders DS0) w \<noteq> None" using F by (metis option.distinct(1))
    moreover have "w \<in> set (map fst (RealWildPtrsWithReasons DS0))" using w(2) inv0(4) by auto
    ultimately have "wildLed ?D1 w" using F by blast
    with Lw R1 have "map_of (RealWildPtrsWithReasons DS0) l \<noteq> None" by (auto simp: wildLed_def)
    with domR own[OF G] show ?thesis by simp
  qed
  show ?thesis
  proof (intro conjI allI impI)
    fix a b rsn loc assume "Geq (VarAtom a) (VarAtom b) rsn loc \<in> set cs"
    with inv0(5) F have "sameGroup ?D1 a b" by blast
    then show "sameGroup DS a b" by (simp add: DS sameGroup_def)
  next
    fix k l
    show "(map_of (Leaders DS) k = Some l) = (\<exists>S. (l, S) \<in> set (Groups DS) \<and> k \<in> S)"
      using iff[of k l] by (simp add: DS inG)
  next
    fix l S assume "(l, S) \<in> set (Groups DS) \<and> S \<inter> directWild cs \<noteq> {}"
    then show "l \<in> directWild cs" "l \<in> S" using led[of l S] by (simp_all add: DS)
  next
    have "\<Union> (snd ` {Gm \<in> set (Groups ?D1). map_of (RealWildPtrsWithReasons ?D1) (fst Gm) \<noteq> None})
        = \<Union> {S. \<exists>l. (l, S) \<in> set (Groups ?D1) \<and> S \<inter> directWild cs \<noteq> {}}"
    proof (intro equalityI subsetI)
      fix x assume "x \<in> \<Union> (snd ` {Gm \<in> set (Groups ?D1). map_of (RealWildPtrsWithReasons ?D1) (fst Gm) \<noteq> None})"
      then obtain l S where lS: "(l, S) \<in> set (Groups ?D1)" "map_of (RealWildPtrsWithReasons ?D1) l \<noteq> None" "x \<in> S"
        by force
      from lS(1) have "l \<in> S" using own by (simp add: inG)
      moreover from lS(2) have "l \<in> directWild cs" using domR R1 by simp
      ultimately show "x \<in> \<Union> {S. \<exists>l. (l, S) \<in> set (Groups ?D1) \<and> S \<inter> directWild cs \<noteq> {}}"
        using lS by blast
    next
      fix x assume "x \<in> \<Union> {S. \<exists>l. (l, S) \<in> set (Groups ?D1) \<and> S \<inter> directWild cs \<noteq> {}}"
      then obtain l S where lS: "(l, S) \<in> set (Groups ?D1)" "S \<inter> directWild cs \<noteq> {}" "x \<in> S"
        by blast
      from led[OF lS(1,2)] have "map_of (RealWildPtrsWithReasons ?D1) l \<noteq> None"
        using domR R1 by simp
      with lS show "x \<in> \<Union> (snd ` {Gm \<in> set (Groups ?D1). map_of (RealWildPtrsWithReasons ?D1) (fst Gm) \<noteq> None})"
        by force
    qed
    then show "TotalNonDirectWildPointers DS =
       \<Union> {S. \<exists>l. (l, S) \<in> set (Groups DS) \<and> S \<inter> directWild cs \<noteq> {}} - directWild cs"
      by (simp add: DS inv0(3))
  qed
qed

lemma scan_wildChain:
  "scanConstraints wildChain (ClearedDisjointSet, {}) =
     Inr (\<lparr> Leaders = [(1, 1), (2, 1), (3, 3), (4, 3)], Groups = [(1, {1, 2}), (3, {3, 4})],
            RealWildPtrsWithReasons = [(2, \<lparr> WildPtrReason = ''cast'', WildPtrLoc = Some 7 \<rparr>)],
            AllWildPtrs = {}, TotalNonDirectWildPointers = {} \<rparr>, {2})"
  by (simp add: wildChain_def ClearedDisjointSet_def AddElements_def recordWild_def)

lemma compute_wildChain:
  "computePointerDisjointSet wildChain =
     Inr \<lparr> Leaders = [(1, 2), (2, 2), (3, 3), (4, 3)], Groups = [(2, {1, 2}), (3, {3, 4})],
            RealWildPtrsWithReasons = [(2, \<lparr> WildPtrReason = ''cast'', WildPtrLoc = Some 7 \<rparr>)],
            AllWildPtrs = {2}, TotalNonDirectWildPointers = {1} \<rparr>"
  unfolding computePointerDisjointSet_def scan_wildChain
  by (auto simp: Let_def adjustLeader_def relabel_def mapErase_def groupOf_def)

lemma scan_total:
  "\<forall>lhs rhs rsn loc. Geq lhs rhs rsn loc \<in> set cs \<longrightarrow> (\<exists>v. lhs = VarAtom v) \<Longrightarrow>
   \<exists>r. scanConstraints cs st = Inr r"
proof (induction cs arbitrary: st)
  case Nil
  then show ?case by simp
next
  case (Cons c cs)
  obtain DS W where st: "st = (DS, W)" by (cases st)
  from Cons.prems have rest: "\<forall>lhs rhs rsn loc. Geq lhs rhs rsn loc \<in> set cs \<longrightarrow> (\<exists>v. lhs = VarAtom v)"
    by auto
  show ?case
  proof (cases c)
    case (Implies p q)
    with Cons.IH[OF rest] show ?thesis by simp
  next
    case (Geq lhs rhs rsn loc)
    with Cons.prems have "\<exists>v. lhs = VarAtom v" by (simp add: all_conj_distrib)
    then obtain v where "lhs = VarAtom v" by blast
    with Geq Cons.IH[OF rest] show ?thesis
      by (cases rhs) (auto simp: st)
  qed
qed

text \<open>The one edge that the resolver records for the string literal \<open>"hi"\<close>: its left side
  is the constant \<open>NTArr\<close>, its right side the unknown of the literal's new variable.\<close>

lemma stringLiteral_edge:
  "CS (snd (projr (getExprConstraintVars exampleEnv (StringLiteral 1 (ArrayTy CharTy) ''hi'')
      emptyProgramInfo))) = [Geq (ConstantAtom NTArrAtom) (VarAtom 0) [] None]"
  by (simp add: getExprConstraintVars_def exampleEnv_def emptyProgramInfo_def isNonPointerType_def
      cachedOr_def hasPersistentConstraints_def storePersistentConstraints_def newPVConstraint_def
      constrainOuterTo_def addConstraint_def)

text \<open>
  C5 at a constraint set with an edge whose right side is an unknown and whose left side
  is a constant, the set that the resolver leaves for a string literal: the left side is
  cast to \<open>VarAtom\<close> and dereferenced unchecked, and the analysis yields no groups.
\<close>

theorem C5_constant_left_side_fails:
  "computePointerDisjointSet [Geq (ConstantAtom NTArrAtom) (VarAtom 0) [] None] = Inl NullDereference"
  by (simp add: computePointerDisjointSet_def)

section \<open>Properties of the expression resolver\<close>

lemma isPointerType_not_nonPointer: "isPointerType T \<Longrightarrow> \<not> isNonPointerType T"
  by (cases T) (simp_all add: isNonPointerType_def)

lemma newPVAtoms_shape:
  "newPVAtoms T n vs k = (P, k') \<Longrightarrow>
     (\<exists>ws. pvVars P = vs @ ws) \<and> \<not> pvOriginallyChecked P \<and> pvBoundsKey P = None \<and> k \<le> k'"
  "newParamVars Ts k = (ps, k') \<Longrightarrow> k \<le> k'"
proof (induction T n vs k and Ts k arbitrary: P k' and ps k' rule: newPVAtoms_newParamVars.induct)
  case (1 T n vs k)
  from 1 show ?case by fastforce
next
  case (2 T n vs k)
  from 2 show ?case by fastforce
next
  case (3 R Ps n vs k)
  from 3 show ?case by (fastforce split: prod.splits)
next
  case (11 T Ts k)
  from 11 show ?case by (fastforce split: prod.splits)
qed auto

lemma newPVConstraint_pointer:
  assumes "newPVConstraint (PointerTy A) n k = (P, k')"
  shows "\<exists>ws. pvVars P = VarAtom k # ws" "\<not> pvOriginallyChecked P" "pvBoundsKey P = None" "k < k'"
  using newPVAtoms_shape(1) [of A n "[VarAtom k]" "Suc k" P k'] assms
  by (auto simp: newPVConstraint_def)

lemma setIsGeneric_sel [simp]:
  "pvVars (setIsGeneric P g) = pvVars P"
  "pvOriginallyChecked (setIsGeneric P g) = pvOriginallyChecked P"
  "pvBoundsKey (setIsGeneric P g) = pvBoundsKey P"
  "pvName (setIsGeneric P g) = pvName P"
  "pvFV (setIsGeneric P g) = pvFV P"
  by (cases P; simp)+

lemma copyPV_boundsKey: "copyPV P k = (P', k') \<Longrightarrow> pvBoundsKey P' = pvBoundsKey P"
  by (cases P) (auto split: prod.splits option.splits)

lemma cachedOr_fresh:
  "PersistentConstraints Info (exprId E) = None \<Longrightarrow>
   cachedOr E Info body =
     (case body of Inl err \<Rightarrow> Inl err
      | Inr (Ret, Info1) \<Rightarrow> Inr (Ret, storePersistentConstraints E Ret Info1))"
  by (simp add: cachedOr_def hasPersistentConstraints_def)

lemma CS_store [simp]: "CS (storePersistentConstraints E Ret Info) = CS Info"
  by (simp add: storePersistentConstraints_def)

lemma nextVar_store [simp]: "nextVar (storePersistentConstraints E Ret Info) = nextVar Info"
  by (simp add: storePersistentConstraints_def)

lemma copyReturnVar_plain:
  assumes "\<not> pvOriginallyChecked P" "pvBoundsKey P = None"
  shows "copyReturnVar env i T [] (PVC P) Info =
     (fst (getCopy (PVC P) Info),
      (snd (getCopy (PVC P) Info))\<lparr> CS := addConstraints
          (constrainConsVarGeq env [fst (getCopy (PVC P) Info)] [PVC P] None Safe_to_Wild False)
          (CS (snd (getCopy (PVC P) Info))) \<rparr>)"
proof -
  obtain P' k' where c: "copyPV P (nextVar Info) = (P', k')" by (cases "copyPV P (nextVar Info)")
  have bk: "pvBoundsKey P' = None" using copyPV_boundsKey [OF c] assms by simp
  show ?thesis using assms c bk
    by (simp add: copyReturnVar_def getCopy_def Let_def)
qed

lemma CS_getCopy [simp]: "CS (snd (getCopy CV Info)) = CS Info"
  by (simp add: getCopy_def split: prod.splits)

lemma set_constrainOuterTo_var:
  "pvVars P = VarAtom v # ws \<Longrightarrow>
   set (constrainOuterTo P C True cs) = insert (Geq (VarAtom v) (ConstantAtom C) [] None) (set cs)"
  by (simp add: constrainOuterTo_def)

lemma getCopy_wild: "getCopy getWildPVConstraint Info = (getWildPVConstraint, Info)"
  by (simp add: getCopy_def getWildPVConstraint_def)

lemma analyzeAllocExpr_calloc:
  "analyzeAllocExpr env (n # sz # rest) ''calloc'' =
     (case getSizeOfArg sz of
        None \<Rightarrow> Inr None
      | Some ArgTy \<Rightarrow>
          Inr (Some (if evaluateToInt env n = Some 1 then PtrAtom else ArrAtom, ArgTy)))"
  by (simp add: analyzeAllocExpr_def split: option.splits)

text \<open>
  C9: take a call whose callee is the declaration of \<open>calloc\<close>, with at least two
  arguments, at a pointer type, that is not a null pointer expression and is resolved for
  the first time. When the second argument is a \<open>sizeof\<close> node over a type \<open>A\<close>, the
  resolver creates a variable for \<open>A *\<close> whose outermost atom is a fresh unknown, and the
  one class edge it adds bounds that atom from below by \<open>Ptr\<close> when the first argument
  evaluates to 1 and by \<open>Arr\<close> otherwise (so never by \<open>NTArr\<close>); the result of the call is
  the copy of that variable, linked to it with \<open>Safe_to_Wild\<close>. When the second argument
  is no \<open>sizeof\<close> node the result is a variable whose only atom is the constant \<open>Wild\<close>.
\<close>

theorem C9_calloc_classification:
  assumes callee: "declName FD = ''calloc''" "isDeclaratorDecl FD"
    and ty: "isPointerType TypE"
    and nonnull: "\<not> isNULLExpression env (CallExpr i T f (Some FD) (n # sz # rest))"
    and first: "PersistentConstraints Info i = None"
  shows "case getSizeOfArg sz of
           Some A \<Rightarrow>
             (\<exists>P k ws CV Info'.
                newPVConstraint (PointerTy A) ''&calloc'' (nextVar Info) = (P, k) \<and>
                pvVars P = VarAtom (nextVar Info) # ws \<and>
                CV = fst (getCopy (PVC (setIsGeneric P True)) (Info\<lparr> nextVar := k \<rparr>)) \<and>
                getExprConstraintVarsAt env TypE (CallExpr i T f (Some FD) (n # sz # rest)) Info =
                  Inr (([CV], []), Info') \<and>
                set (CS Info') =
                  insert (Geq (VarAtom (nextVar Info))
                            (ConstantAtom (if evaluateToInt env n = Some 1 then PtrAtom else ArrAtom)) [] None)
                    (set (CS Info)) \<union>
                  set (constrainConsVarGeq env [CV] [PVC (setIsGeneric P True)] None Safe_to_Wild False))
         | None \<Rightarrow>
             (\<exists>CV Info'.
                getExprConstraintVarsAt env TypE (CallExpr i T f (Some FD) (n # sz # rest)) Info =
                  Inr (([CV], []), Info') \<and>
                atomsCV CV = [ConstantAtom WildAtom] \<and>
                set (CS Info') =
                  set (CS Info) \<union>
                  set (constrainConsVarGeq env [CV] [getWildPVConstraint] None Safe_to_Wild False))"
proof (cases "getSizeOfArg sz")
  case None
  have wild: "\<not> pvOriginallyChecked (MkPV [ConstantAtom WildAtom] ''wildvar'' None False None False None False)"
    by simp
  have "getExprConstraintVarsAt env TypE (CallExpr i T f (Some FD) (n # sz # rest)) Info =
      Inr (([getWildPVConstraint], []),
           storePersistentConstraints (CallExpr i T f (Some FD) (n # sz # rest)) ([getWildPVConstraint], [])
             (Info\<lparr> CS := addConstraints
                (constrainConsVarGeq env [getWildPVConstraint] [getWildPVConstraint] None Safe_to_Wild False)
                (CS Info) \<rparr>))"
    using callee ty nonnull first None
    by (simp add: isPointerType_not_nonPointer cachedOr_fresh isFunctionAllocator_def
        analyzeAllocExpr_calloc copyReturnVar_def getCopy_def getWildPVConstraint_def Let_def)
  then show ?thesis using None by (simp add: getWildPVConstraint_def)
next
  case (Some A)
  obtain P k where new: "newPVConstraint (PointerTy A) ''&calloc'' (nextVar Info) = (P, k)"
    by (cases "newPVConstraint (PointerTy A) ''&calloc'' (nextVar Info)")
  from newPVConstraint_pointer [OF new] obtain ws where
    vars: "pvVars P = VarAtom (nextVar Info) # ws" and oc: "\<not> pvOriginallyChecked P"
    and bk: "pvBoundsKey P = None" by blast
  let ?cls = "if evaluateToInt env n = Some 1 then PtrAtom else ArrAtom"
  let ?G = "setIsGeneric P True"
  let ?I1 = "Info\<lparr> nextVar := k, CS := constrainOuterTo ?G ?cls True (CS Info) \<rparr>"
  let ?CV = "fst (getCopy (PVC ?G) (Info\<lparr> nextVar := k \<rparr>))"
  have copy_eq: "fst (getCopy (PVC ?G) ?I1) = ?CV"
    by (simp add: getCopy_def split: prod.splits)
  have run: "getExprConstraintVarsAt env TypE (CallExpr i T f (Some FD) (n # sz # rest)) Info =
      Inr (([?CV], []),
           storePersistentConstraints (CallExpr i T f (Some FD) (n # sz # rest)) ([?CV], [])
             ((snd (getCopy (PVC ?G) ?I1))\<lparr> CS := addConstraints
                (constrainConsVarGeq env [?CV] [PVC ?G] None Safe_to_Wild False)
                (CS (snd (getCopy (PVC ?G) ?I1))) \<rparr>))"
    using callee ty nonnull first Some new oc bk copy_eq
    by (simp add: isPointerType_not_nonPointer cachedOr_fresh isFunctionAllocator_def
        analyzeAllocExpr_calloc copyReturnVar_plain Let_def)
  have edges: "set (constrainOuterTo ?G ?cls True (CS Info)) =
      insert (Geq (VarAtom (nextVar Info)) (ConstantAtom ?cls) [] None) (set (CS Info))"
    using vars by (intro set_constrainOuterTo_var) simp
  show ?thesis
    using Some new vars run edges by (simp add: Un_commute)
qed

theorem C9_calloc_classification_witness:
  "Geq (VarAtom 0) (ConstantAtom PtrAtom) [] None \<in>
     set (CS (snd (projr (getExprConstraintVarsAt exampleEnv (PointerTy VoidTy)
        (callocCall (IntegerLiteral 5 IntTy 1)) emptyProgramInfo))))"
proof -
  have pre: "declName callocDecl = ''calloc''" "isDeclaratorDecl callocDecl"
    "isPointerType (PointerTy VoidTy)"
    "\<not> isNULLExpression exampleEnv (callocCall (IntegerLiteral 5 IntTy 1))"
    "PersistentConstraints emptyProgramInfo 2 = None"
    by (simp_all add: callocDecl_def isDeclaratorDecl_def exampleEnv_def callocCall_def
        emptyProgramInfo_def)
  have sz: "getSizeOfArg (UnaryExprOrTypeTraitExpr 8 IntTy UETT_SizeOf IntTy) = Some IntTy" by simp
  have one: "evaluateToInt exampleEnv (IntegerLiteral 5 IntTy 1) = Some 1"
    by (simp add: exampleEnv_def)
  have nv: "nextVar emptyProgramInfo = 0" by (simp add: emptyProgramInfo_def)
  have "\<exists>X Info'. getExprConstraintVarsAt exampleEnv (PointerTy VoidTy)
        (callocCall (IntegerLiteral 5 IntTy 1)) emptyProgramInfo = Inr (X, Info') \<and>
      Geq (VarAtom 0) (ConstantAtom PtrAtom) [] None \<in> set (CS Info')"
    using C9_calloc_classification [where FD = callocDecl and TypE = "PointerTy VoidTy"
      and env = exampleEnv and i = 2 and T = "PointerTy VoidTy"
      and f = "ImplicitCastExpr 3 (PointerTy (FunctionTy (PointerTy VoidTy) [IntTy, IntTy]))
          (DeclRefExpr 4 (FunctionTy (PointerTy VoidTy) [IntTy, IntTy]) callocDecl)"
      and n = "IntegerLiteral 5 IntTy 1"
      and sz = "UnaryExprOrTypeTraitExpr 8 IntTy UETT_SizeOf IntTy" and rest = "[]"
      and Info = emptyProgramInfo, OF pre [unfolded callocCall_def]]
    unfolding sz one nv callocCall_def option.case
    by (auto simp del: getExprConstraintVarsAt.simps)
  then show ?thesis by (auto simp del: getExprConstraintVarsAt.simps)
qed

lemma newPVAtoms_fresh:
  "newPVAtoms T n vs k = (P, k') \<Longrightarrow> set (atomsPV P) \<subseteq> set vs \<union> VarAtom ` {k..<k'} \<and> k \<le> k'"
  "newParamVars Ts k = (ps, k') \<Longrightarrow> set (atomsCVss ps) \<subseteq> VarAtom ` {k..<k'} \<and> k \<le> k'"
proof (induction T n vs k and Ts k arbitrary: P k' and ps k' rule: newPVAtoms_newParamVars.induct)
  case (1 T n vs k)
  from 1(1) [of P k'] 1(2) show ?case by auto
next
  case (2 T n vs k)
  from 2(1) [of P k'] 2(2) show ?case by auto
next
  case (3 R Ps n vs k)
  obtain r k1 where r: "newPVAtoms R n [] k = (r, k1)" by (cases "newPVAtoms R n [] k")
  obtain ps k2 where ps: "newParamVars Ps k1 = (ps, k2)" by (cases "newParamVars Ps k1")
  from 3(1) [OF r] have a: "set (atomsPV r) \<subseteq> VarAtom ` {k..<k1}" "k \<le> k1" by auto
  from 3(2) [OF r [symmetric] ps] have b: "set (atomsCVss ps) \<subseteq> VarAtom ` {k1..<k2}" "k1 \<le> k2"
    by auto
  from 3(3) r ps have P: "P = MkPV vs n (Some (MkFV n [PVC r] ps False True)) False None False None False"
    and k': "k' = k2" by auto
  have "VarAtom ` {k..<k1} \<subseteq> VarAtom ` {k..<k2}" "VarAtom ` {k1..<k2} \<subseteq> VarAtom ` {k..<k2}"
    using a(2) b(2) by auto
  with a b show ?case unfolding P k' by auto
next
  case (11 T Ts k)
  obtain p k1 where p: "newPVAtoms T [] [] k = (p, k1)" by (cases "newPVAtoms T [] [] k")
  obtain qs k2 where qs: "newParamVars Ts k1 = (qs, k2)" by (cases "newParamVars Ts k1")
  from 11(1) [OF p] have a: "set (atomsPV p) \<subseteq> VarAtom ` {k..<k1}" "k \<le> k1" by auto
  from 11(2) [OF p [symmetric] qs] have b: "set (atomsCVss qs) \<subseteq> VarAtom ` {k1..<k2}" "k1 \<le> k2"
    by auto
  from 11(3) p qs have ps: "ps = [PVC p] # qs" and k': "k' = k2" by auto
  have "VarAtom ` {k..<k1} \<subseteq> VarAtom ` {k..<k2}" "VarAtom ` {k1..<k2} \<subseteq> VarAtom ` {k..<k2}"
    using a(2) b(2) by auto
  with a b show ?case unfolding ps k' by auto
qed auto

lemma newPVConstraint_fresh:
  "newPVConstraint T n k = (P, k') \<Longrightarrow> set (atomsPV P) \<subseteq> VarAtom ` {k..<k'}"
  using newPVAtoms_fresh(1) [of T n "[]" k P k'] by (simp add: newPVConstraint_def)

text \<open>What \<open>getInvalidCastPVCons\<close> does for a node of pointer type that has nothing stored.\<close>

lemma getInvalidCastPVCons_fresh:
  assumes ptr: "isPointerType (getType E)" and first: "PersistentConstraints Info (exprId E) = None"
  shows "\<exists>P ws Info'.
     newPVConstraint (getType E) ''Invalid cast'' (nextVar Info) = (P, nextVar Info') \<and>
     pvVars P = VarAtom (nextVar Info) # ws \<and>
     set (atomsPV P) \<subseteq> VarAtom ` {nextVar Info..<nextVar Info'} \<and>
     getInvalidCastPVCons env E Info = ([PVC P], Info') \<and>
     set (CS Info') = set (CS Info) \<union>
       set (wildEdges (''Cast from '' @ getAsString env (castSubExprType E) @ '' to '' @
                       getAsString env (getType E)) (Some (exprPSL env E)) (atomsPV P)) \<and>
     PersistentConstraints Info' = (PersistentConstraints Info)(exprId E \<mapsto> ([PVC P], []))"
proof -
  obtain A where A: "getType E = PointerTy A" using ptr by (cases "getType E") auto
  obtain P k where new: "newPVConstraint (getType E) ''Invalid cast'' (nextVar Info) = (P, k)"
    by (cases "newPVConstraint (getType E) ''Invalid cast'' (nextVar Info)")
  from newPVConstraint_pointer(1) [OF new [unfolded A]] obtain ws where
    vars: "pvVars P = VarAtom (nextVar Info) # ws" by blast
  note fresh = newPVConstraint_fresh [OF new]
  show ?thesis
    using first new vars fresh
    by (simp add: getInvalidCastPVCons_def hasPersistentConstraints_def
        storePersistentConstraints_def set_constrainToWild)
qed

lemma explicit_unsafe_cast:
  assumes nonnull: "\<not> isNULLExpression env (CStyleCastExpr i T sub)"
    and ptr: "isPointerType T"
    and unsafe: "\<not> isCastSafe env T (getType sub)"
    and first: "PersistentConstraints Info i = None"
  shows "\<exists>P ws Info'.
     newPVConstraint T ''Invalid cast'' (nextVar Info) = (P, nextVar Info') \<and>
     pvVars P = VarAtom (nextVar Info) # ws \<and>
     set (atomsPV P) \<subseteq> VarAtom ` {nextVar Info..<nextVar Info'} \<and>
     getExprConstraintVarsAt env T (CStyleCastExpr i T sub) Info = Inr (([PVC P], []), Info') \<and>
     set (CS Info') = set (CS Info) \<union>
       set (wildEdges (''Cast from '' @ getAsString env (getType sub) @ '' to '' @ getAsString env T)
              (Some (exprPSL env (CStyleCastExpr i T sub))) (atomsPV P)) \<and>
     PersistentConstraints Info' = (PersistentConstraints Info)(i \<mapsto> ([PVC P], []))"
proof -
  from getInvalidCastPVCons_fresh [of "CStyleCastExpr i T sub" Info env] ptr first
  obtain P ws Info1 where
    new: "newPVConstraint T ''Invalid cast'' (nextVar Info) = (P, nextVar Info1)"
    and vars: "pvVars P = VarAtom (nextVar Info) # ws"
    and fresh: "set (atomsPV P) \<subseteq> VarAtom ` {nextVar Info..<nextVar Info1}"
    and inv: "getInvalidCastPVCons env (CStyleCastExpr i T sub) Info = ([PVC P], Info1)"
    and cs: "set (CS Info1) = set (CS Info) \<union>
       set (wildEdges (''Cast from '' @ getAsString env (getType sub) @ '' to '' @ getAsString env T)
              (Some (exprPSL env (CStyleCastExpr i T sub))) (atomsPV P))"
    and pc: "PersistentConstraints Info1 = (PersistentConstraints Info)(i \<mapsto> ([PVC P], []))"
    by auto
  have run: "getExprConstraintVarsAt env T (CStyleCastExpr i T sub) Info =
      Inr (([PVC P], []), storePersistentConstraints (CStyleCastExpr i T sub) ([PVC P], []) Info1)"
    using nonnull ptr unsafe first inv
    by (simp add: isPointerType_not_nonPointer cachedOr_fresh)
  show ?thesis
    using new vars fresh run cs pc
    by (simp add: storePersistentConstraints_def)
qed

lemma implicit_unsafe_conversion:
  assumes nonnull: "\<not> isNULLExpression env (ImplicitCastExpr i T sub)"
    and ptr: "isPointerType T"
    and src: "\<not> isFunctionType (getType sub)" "\<not> isArrayType (getType sub)"
      "\<not> isVoidPointerType (getType sub)"
    and unsafe: "\<not> isCastSafe env T (getType sub)"
    and sub: "getExprConstraintVarsAt env (getType sub) sub Info = Inr (CVs, Info1)"
    and first: "PersistentConstraints Info1 i = None"
  shows "\<exists>P ws Info'.
     newPVConstraint T ''Invalid cast'' (nextVar Info1) = (P, nextVar Info') \<and>
     pvVars P = VarAtom (nextVar Info1) # ws \<and>
     set (atomsPV P) \<subseteq> VarAtom ` {nextVar Info1..<nextVar Info'} \<and>
     getExprConstraintVarsAt env T (ImplicitCastExpr i T sub) Info = Inr (([PVC P], []), Info') \<and>
     set (CS Info') = set (CS Info1) \<union>
       (\<Union>V\<in>set (fst CVs). set (wildEdges
           (''Cast from '' @ getAsString env (getType sub) @ '' to '' @ getAsString env T)
           (Some (exprPSL env (ImplicitCastExpr i T sub))) (atomsCV V))) \<union>
       set (wildEdges (''Cast from '' @ getAsString env (getType sub) @ '' to '' @ getAsString env T)
              (Some (exprPSL env (ImplicitCastExpr i T sub))) (atomsPV P))"
proof -
  let ?E = "ImplicitCastExpr i T sub"
  let ?rsn = "''Cast from '' @ getAsString env (getType sub) @ '' to '' @ getAsString env T"
  let ?I2 = "Info1\<lparr> CS := constrainAllToWild (fst CVs) ?rsn (Some (exprPSL env ?E)) (CS Info1) \<rparr>"
  have first2: "PersistentConstraints ?I2 (exprId ?E) = None" using first by simp
  from getInvalidCastPVCons_fresh [of ?E ?I2 env, OF _ first2] ptr
  obtain P ws Info3 where
    new: "newPVConstraint T ''Invalid cast'' (nextVar Info1) = (P, nextVar Info3)"
    and vars: "pvVars P = VarAtom (nextVar Info1) # ws"
    and fresh: "set (atomsPV P) \<subseteq> VarAtom ` {nextVar Info1..<nextVar Info3}"
    and inv: "getInvalidCastPVCons env ?E ?I2 = ([PVC P], Info3)"
    and cs: "set (CS Info3) = set (CS ?I2) \<union> set (wildEdges ?rsn (Some (exprPSL env ?E)) (atomsPV P))"
    by auto
  have run: "getExprConstraintVarsAt env T ?E Info = Inr (([PVC P], []), Info3)"
    using nonnull ptr src unsafe sub inv
    by (simp add: isPointerType_not_nonPointer)
  show ?thesis
    using new vars fresh run cs by (simp add: set_constrainAllToWild)
qed

text \<open>
  C4, as it stands, fails where the cast is a null pointer expression and where an implicit
  conversion starts from a pointer to \<open>void\<close>: \<open>(int * )(void * )0\<close> is an unsafe explicit
  cast between pointer types, and its result is a rewritable variable that no edge forces;
  the implicit conversion of \<open>void *q\<close> to \<open>int *\<close> is unsafe as well, and it returns the
  variable of \<open>q\<close> itself and adds no edge; the implicit conversion of \<open>(char * )0\<close> to
  \<open>int *\<close> returns no variable at all.
\<close>

theorem C4_null_and_void_casts_counterexample:
  "\<not> isCastSafe exampleEnv (PointerTy IntTy) (PointerTy VoidTy) \<and>
   fst (projr (getExprConstraintVars exampleEnv nullCast emptyProgramInfo)) =
     ([PVC (MkPV [VarAtom 1] ''CStyleCastExpr'' None False None False None False)], []) \<and>
   CS (snd (projr (getExprConstraintVars exampleEnv nullCast emptyProgramInfo))) = [] \<and>
   getExprConstraintVars exampleEnv voidConversion qInfo = Inr (([qVar], []), qInfo) \<and>
   \<not> isCastSafe exampleEnv (PointerTy IntTy) (PointerTy CharTy) \<and>
   getExprConstraintVars exampleEnv nullConversion emptyProgramInfo = Inr (([], []), emptyProgramInfo)"
  by (simp add: getExprConstraintVars_def nullCast_def voidConversion_def nullConversion_def
      exampleEnv_def emptyProgramInfo_def qInfo_def qDecl_def isNonPointerType_def cachedOr_def
      hasPersistentConstraints_def storePersistentConstraints_def getRewritablePVConstraint_def
      newPVConstraint_def PVConstraintFromType_def)

text \<open>
  C4, amended. An explicit cast to a pointer type that is not a null pointer expression,
  is statically unsafe and is resolved for the first time: its result is one new variable
  whose atoms are fresh unknowns, every one of which is forced \<open>Wild\<close> with the reason of
  the cast; no other edge is added and nothing but the result of the cast is stored, the
  sub-expression is not resolved. An implicit conversion to a pointer type that is not a
  null pointer expression, whose source is no function, array or pointer to \<open>void\<close>, that
  is not provably safe and has nothing stored: every atom of the variables of the
  sub-expression is forced \<open>Wild\<close>, and the result is one new variable with fresh unknowns,
  forced \<open>Wild\<close> as well.
\<close>

theorem C4_unsafe_casts:
  "(\<not> isNULLExpression env (CStyleCastExpr i T sub) \<and> isPointerType T \<and>
    \<not> isCastSafe env T (getType sub) \<and> PersistentConstraints Info i = None \<longrightarrow>
    (\<exists>P ws Info'.
       newPVConstraint T ''Invalid cast'' (nextVar Info) = (P, nextVar Info') \<and>
       pvVars P = VarAtom (nextVar Info) # ws \<and>
       set (atomsPV P) \<subseteq> VarAtom ` {nextVar Info..<nextVar Info'} \<and>
       getExprConstraintVarsAt env T (CStyleCastExpr i T sub) Info = Inr (([PVC P], []), Info') \<and>
       set (CS Info') = set (CS Info) \<union>
         set (wildEdges (''Cast from '' @ getAsString env (getType sub) @ '' to '' @ getAsString env T)
                (Some (exprPSL env (CStyleCastExpr i T sub))) (atomsPV P)) \<and>
       PersistentConstraints Info' = (PersistentConstraints Info)(i \<mapsto> ([PVC P], [])))) \<and>
   (\<not> isNULLExpression env (ImplicitCastExpr j U sub2) \<and> isPointerType U \<and>
    \<not> isFunctionType (getType sub2) \<and> \<not> isArrayType (getType sub2) \<and>
    \<not> isVoidPointerType (getType sub2) \<and> \<not> isCastSafe env U (getType sub2) \<and>
    getExprConstraintVarsAt env (getType sub2) sub2 Info2 = Inr (CVs, Info3) \<and>
    PersistentConstraints Info3 j = None \<longrightarrow>
    (\<exists>P ws Info'.
       newPVConstraint U ''Invalid cast'' (nextVar Info3) = (P, nextVar Info') \<and>
       pvVars P = VarAtom (nextVar Info3) # ws \<and>
       set (atomsPV P) \<subseteq> VarAtom ` {nextVar Info3..<nextVar Info'} \<and>
       getExprConstraintVarsAt env U (ImplicitCastExpr j U sub2) Info2 = Inr (([PVC P], []), Info') \<and>
       set (CS Info') = set (CS Info3) \<union>
         (\<Union>V\<in>set (fst CVs). set (wildEdges
             (''Cast from '' @ getAsString env (getType sub2) @ '' to '' @ getAsString env U)
             (Some (exprPSL env (ImplicitCastExpr j U sub2))) (atomsCV V))) \<union>
         set (wildEdges (''Cast from '' @ getAsString env (getType sub2) @ '' to '' @ getAsString env U)
                (Some (exprPSL env (ImplicitCastExpr j U sub2))) (atomsPV P))))"
proof (intro conjI impI)
  assume "\<not> isNULLExpression env (CStyleCastExpr i T sub) \<and> isPointerType T \<and>
    \<not> isCastSafe env T (getType sub) \<and> PersistentConstraints Info i = None"
  then show "\<exists>P ws Info'.
       newPVConstraint T ''Invalid cast'' (nextVar Info) = (P, nextVar Info') \<and>
       pvVars P = VarAtom (nextVar Info) # ws \<and>
       set (atomsPV P) \<subseteq> VarAtom ` {nextVar Info..<nextVar Info'} \<and>
       getExprConstraintVarsAt env T (CStyleCastExpr i T sub) Info = Inr (([PVC P], []), Info') \<and>
       set (CS Info') = set (CS Info) \<union>
         set (wildEdges (''Cast from '' @ getAsString env (getType sub) @ '' to '' @ getAsString env T)
                (Some (exprPSL env (CStyleCastExpr i T sub))) (atomsPV P)) \<and>
       PersistentConstraints Info' = (PersistentConstraints Info)(i \<mapsto> ([PVC P], []))"
    by (intro explicit_unsafe_cast) simp_all
next
  assume "\<not> isNULLExpression env (ImplicitCastExpr j U sub2) \<and> isPointerType U \<and>
    \<not> isFunctionType (getType sub2) \<and> \<not> isArrayType (getType sub2) \<and>
    \<not> isVoidPointerType (getType sub2) \<and> \<not> isCastSafe env U (getType sub2) \<and>
    getExprConstraintVarsAt env (getType sub2) sub2 Info2 = Inr (CVs, Info3) \<and>
    PersistentConstraints Info3 j = None"
  then show "\<exists>P ws Info'.
       newPVConstraint U ''Invalid cast'' (nextVar Info3) = (P, nextVar Info') \<and>
       pvVars P = VarAtom (nextVar Info3) # ws \<and>
       set (atomsPV P) \<subseteq> VarAtom ` {nextVar Info3..<nextVar Info'} \<and>
       getExprConstraintVarsAt env U (ImplicitCastExpr j U sub2) Info2 = Inr (([PVC P], []), Info') \<and>
       set (CS Info') = set (CS Info3) \<union>
         (\<Union>V\<in>set (fst CVs). set (wildEdges
             (''Cast from '' @ getAsString env (getType sub2) @ '' to '' @ getAsString env U)
             (Some (exprPSL env (ImplicitCastExpr j U sub2))) (atomsCV V))) \<union>
         set (wildEdges (''Cast from '' @ getAsString env (getType sub2) @ '' to '' @ getAsString env U)
                (Some (exprPSL env (ImplicitCastExpr j U sub2))) (atomsPV P))"
    by (intro implicit_unsafe_conversion) simp_all
qed

theorem C4_unsafe_casts_witness:
  "Geq (VarAtom 1) (ConstantAtom WildAtom) ''Cast from char * to int *'' (Some 1) \<in>
     set (CS (snd (projr (getExprConstraintVarsAt exampleEnv (PointerTy IntTy) charCast qInfo)))) \<and>
   Geq (VarAtom 0) (ConstantAtom WildAtom) ''Cast from char * to int *'' (Some 1) \<notin>
     set (CS (snd (projr (getExprConstraintVarsAt exampleEnv (PointerTy IntTy) charCast qInfo)))) \<and>
   Geq (VarAtom 1) (ConstantAtom WildAtom) ''Cast from char * to int *'' (Some 1) \<in>
     set (CS (snd (projr (getExprConstraintVarsAt exampleEnv (PointerTy IntTy) charConversion qInfo)))) \<and>
   Geq (VarAtom 0) (ConstantAtom WildAtom) ''Cast from char * to int *'' (Some 1) \<in>
     set (CS (snd (projr (getExprConstraintVarsAt exampleEnv (PointerTy IntTy) charConversion qInfo))))"
proof -
  let ?q = "DeclRefExpr 2 (PointerTy CharTy) qDecl"
  have pre1: "\<not> isNULLExpression exampleEnv (CStyleCastExpr 1 (PointerTy IntTy) ?q) \<and>
      isPointerType (PointerTy IntTy) \<and>
      \<not> isCastSafe exampleEnv (PointerTy IntTy) (getType ?q) \<and>
      PersistentConstraints qInfo 1 = None"
    by (simp add: exampleEnv_def qInfo_def emptyProgramInfo_def)
  have pre2: "\<not> isNULLExpression exampleEnv (ImplicitCastExpr 1 (PointerTy IntTy) ?q) \<and>
      isPointerType (PointerTy IntTy) \<and>
      \<not> isFunctionType (getType ?q) \<and> \<not> isArrayType (getType ?q) \<and>
      \<not> isVoidPointerType (getType ?q) \<and> \<not> isCastSafe exampleEnv (PointerTy IntTy) (getType ?q) \<and>
      getExprConstraintVarsAt exampleEnv (getType ?q) ?q qInfo = Inr (([qVar], []), qInfo) \<and>
      PersistentConstraints qInfo 1 = None"
    by (simp add: exampleEnv_def qInfo_def emptyProgramInfo_def isNonPointerType_def)
  note inst = C4_unsafe_casts [where env = exampleEnv and i = 1 and T = "PointerTy IntTy"
      and sub = ?q and Info = qInfo and j = 1 and U = "PointerTy IntTy" and ?sub2.0 = ?q
      and ?Info2.0 = qInfo and CVs = "([qVar], [])" and ?Info3.0 = qInfo]
  have str: "getAsString exampleEnv (getType ?q) = ''char *''"
    "getAsString exampleEnv (PointerTy IntTy) = ''int *''"
    "exprPSL exampleEnv (CStyleCastExpr 1 (PointerTy IntTy) ?q) = 1"
    "exprPSL exampleEnv (ImplicitCastExpr 1 (PointerTy IntTy) ?q) = 1"
    by (simp_all add: exampleEnv_def)
  have q0: "nextVar qInfo = 1" "CS qInfo = []" by (simp_all add: qInfo_def emptyProgramInfo_def)
  from inst [THEN conjunct1, THEN mp, OF pre1]
  obtain P ws Info' where
    vars: "pvVars P = VarAtom 1 # ws"
    and fresh: "set (atomsPV P) \<subseteq> VarAtom ` {1..<nextVar Info'}"
    and run: "getExprConstraintVarsAt exampleEnv (PointerTy IntTy) charCast qInfo = Inr (([PVC P], []), Info')"
    and cs: "set (CS Info') =
        set (wildEdges ''Cast from char * to int *'' (Some 1) (atomsPV P))"
    unfolding str q0 charCast_def by (auto simp del: getExprConstraintVarsAt.simps)
  have in1: "VarAtom 1 \<in> set (atomsPV P)" using vars by (cases P) auto
  have out0: "VarAtom 0 \<notin> set (atomsPV P)" using fresh by auto
  from inst [THEN conjunct2, THEN mp, OF pre2]
  obtain P2 ws2 Info2 where
    vars2: "pvVars P2 = VarAtom 1 # ws2"
    and run2: "getExprConstraintVarsAt exampleEnv (PointerTy IntTy) charConversion qInfo =
        Inr (([PVC P2], []), Info2)"
    and cs2: "set (CS Info2) =
        set (wildEdges ''Cast from char * to int *'' (Some 1) (atomsCV qVar)) \<union>
        set (wildEdges ''Cast from char * to int *'' (Some 1) (atomsPV P2))"
    unfolding str q0 charConversion_def by (auto simp del: getExprConstraintVarsAt.simps)
  have in2: "VarAtom 1 \<in> set (atomsPV P2)" using vars2 by (cases P2) auto
  show ?thesis
    unfolding run run2 using cs cs2 in1 out0 in2
    by (simp add: in_wildEdges qVar_def)
qed

subsection \<open>Resolving a node twice\<close>

lemma exprId_in_nodeIds: "exprId E \<in> set (nodeIds E)"
  by (cases E) auto

lemma nodeIds_IgnoreParenImpCasts: "set (nodeIds (IgnoreParenImpCasts e)) \<subseteq> set (nodeIds e)"
  by (induction e rule: IgnoreParenImpCasts.induct) auto

lemma PC_addAtom: "addAtom P A S = (P', S') \<Longrightarrow> PersistentConstraints S' = PersistentConstraints S"
  by (auto simp: addAtom_def Let_def)

lemma PC_addAtomAll:
  "addAtomAll Vs A S = (R, S') \<Longrightarrow> PersistentConstraints S' = PersistentConstraints S"
proof (induction Vs A S arbitrary: R S' rule: addAtomAll.induct)
  case (1 PtrTyp Info)
  then show ?case by simp
next
  case (2 P CVS PtrTyp Info)
  obtain t I1 where a: "addAtom P PtrTyp Info = (t, I1)" by (cases "addAtom P PtrTyp Info")
  obtain Rs I2 where b: "addAtomAll CVS PtrTyp I1 = (Rs, I2)" by (cases "addAtomAll CVS PtrTyp I1")
  from 2(2) a b have "S' = I2" by simp
  with 2(1) [OF a [symmetric] b] PC_addAtom [OF a] show ?case by simp
next
  case (3 F CVS PtrTyp Info)
  then show ?case by (auto split: prod.splits)
qed

lemma PC_getRewritable:
  "getRewritablePVConstraint env E n S = (P, S') \<Longrightarrow> PersistentConstraints S' = PersistentConstraints S"
  by (auto simp: getRewritablePVConstraint_def split: prod.splits)

lemma PC_getCopy: "getCopy CV S = (CV', S') \<Longrightarrow> PersistentConstraints S' = PersistentConstraints S"
  by (auto simp: getCopy_def split: prod.splits)

lemma PC_copyReturnVar:
  "copyReturnVar env i T RF CV S = (N, S') \<Longrightarrow> PersistentConstraints S' = PersistentConstraints S"
  by (auto simp: copyReturnVar_def Let_def split: prod.splits ConstraintVariable.splits if_splits
      dest: PC_getCopy)

lemma PC_copyReturnVars:
  "copyReturnVars env i T RF CVs S = (Ns, S') \<Longrightarrow> PersistentConstraints S' = PersistentConstraints S"
proof (induction CVs arbitrary: S Ns S')
  case Nil
  then show ?case by simp
next
  case (Cons CV CVs)
  obtain N I1 where a: "copyReturnVar env i T RF CV S = (N, I1)" by (cases "copyReturnVar env i T RF CV S")
  obtain Rs I2 where b: "copyReturnVars env i T RF CVs I1 = (Rs, I2)"
    by (cases "copyReturnVars env i T RF CVs I1")
  from Cons(2) a b have "S' = I2" by simp
  with Cons(1) [OF b] PC_copyReturnVar [OF a] show ?case by simp
qed

lemma PC_getInvalidCast:
  "getInvalidCastPVCons env E S = (R, S') \<Longrightarrow> j \<noteq> exprId E \<Longrightarrow>
   PersistentConstraints S' j = PersistentConstraints S j"
  by (auto simp: getInvalidCastPVCons_def storePersistentConstraints_def Let_def
      split: if_splits prod.splits)

lemma cachedOr_frame:
  assumes "cachedOr E S0 body = Inr (r, S)" and "j \<noteq> exprId E"
    and "\<And>r1 S1. body = Inr (r1, S1) \<Longrightarrow> PersistentConstraints S1 j = PersistentConstraints S0 j"
  shows "PersistentConstraints S j = PersistentConstraints S0 j"
  using assms
  by (auto simp: cachedOr_def storePersistentConstraints_def split: if_splits sum.splits)

lemma stripped_ids:
  "IgnoreParenImpCasts e = e' \<Longrightarrow> j \<notin> set (nodeIds e) \<Longrightarrow> j \<notin> set (nodeIds e')"
  using nodeIds_IgnoreParenImpCasts [of e] by auto

lemma hd_ids: "args \<noteq> [] \<Longrightarrow> j \<notin> (\<Union>a\<in>set args. set (nodeIds a)) \<Longrightarrow>
    j \<notin> set (nodeIds (IgnoreParenImpCasts (hd args)))"
  using nodeIds_IgnoreParenImpCasts [of "hd args"] by (cases args) auto

lemmas frame_simps = cachedOr_def hasPersistentConstraints_def getPersistentConstraints_def
  storePersistentConstraints_def

lemma resolver_frame:
  "getExprConstraintVarsAt env TypE E S0 = Inr (r, S) \<Longrightarrow> j \<notin> set (nodeIds E) \<Longrightarrow>
     PersistentConstraints S j = PersistentConstraints S0 j"
  "getAllSubExprConstraintVars env Es S0 = Inr (r, S) \<Longrightarrow> j \<notin> (\<Union>e\<in>set Es. set (nodeIds e)) \<Longrightarrow>
     PersistentConstraints S j = PersistentConstraints S0 j"
proof (induction env TypE E S0 and env Es S0 arbitrary: r S and r S
    rule: getExprConstraintVarsAt_getAllSubExprConstraintVars.induct)
  case (1 env TypE i T e Info)
  then show ?case by auto
next
  case (2 env TypE i T d Info)
  then show ?case by (auto split: if_splits option.splits)
next
  case (3 env TypE i T b d Info)
  then show ?case by (auto split: if_splits option.splits)
next
  case (4 env TypE i T sub Info)
  then show ?case
    by (auto split: if_splits sum.splits prod.splits dest!: PC_getInvalidCast [where j = j])
next
  case (5 env TypE i T sub Info)
  then show ?case by (auto split: if_splits)
next
  case (6 env TypE i T TmpE Info)
  then show ?case
    by (auto simp: frame_simps split: if_splits sum.splits prod.splits
        dest!: PC_getInvalidCast [where j = j] PC_getRewritable)
next
  case (7 env TypE i T opc L R Info)
  then show ?case
    by (auto simp: frame_simps split: if_splits sum.splits prod.splits)
next
  case (8 env TypE i T Base Idx Info)
  then show ?case
    by (auto simp: frame_simps split: if_splits sum.splits prod.splits)
next
  case (9 env TypE i T opc UOExpr Info)
  let ?E = "UnaryOperator i T opc UOExpr"
  note run = "9.prems"(1) and nj = "9.prems"(2)
  have ji: "j \<noteq> exprId ?E" and ju: "j \<notin> set (nodeIds UOExpr)" using nj by auto
  show ?case
  proof (cases "isNonPointerType TypE \<or> isNULLExpression env ?E")
    case True
    with run show ?thesis by (auto split: if_splits)
  next
    case False
    then have np: "\<not> isNonPointerType TypE" and nn: "\<not> isNULLExpression env ?E" by auto
    show ?thesis
    proof (cases "opc = UO_AddrOf")
      case True
      note addr = True
      let ?U = "IgnoreParenImpCasts UOExpr"
      have jU: "j \<notin> set (nodeIds ?U)" using ju nodeIds_IgnoreParenImpCasts [of UOExpr] by auto
      have dflt: "PersistentConstraints S1 j = PersistentConstraints Info j"
        if b: "(case getExprConstraintVarsAt env (getType ?U) ?U Info of
                     Inl err \<Rightarrow> Inl err
                   | Inr (T1, Info1) \<Rightarrow>
                       if fst T1 = [] then Inl AssertionFailed
                       else (case addAtomAll (fst T1) PtrAtom Info1 of
                               (Res, Info2) \<Rightarrow> Inr ((Res, snd T1), Info2))) = Inr (r1, S1)"
          and ih: "\<And>r S. getExprConstraintVarsAt env (getType ?U) ?U Info = Inr (r, S) \<Longrightarrow>
                 PersistentConstraints S j = PersistentConstraints Info j"
        for r1 S1
        using ih b by (auto split: sum.splits prod.splits if_splits dest!: PC_addAtomAll)
      show ?thesis
      proof (cases ?U)
        case (UnaryOperator k U opc2 SubE)
        have jS: "j \<notin> set (nodeIds SubE)" using jU UnaryOperator by simp
        from run np nn addr UnaryOperator
        have c: "cachedOr ?E Info
            (if opc2 = UO_Deref then getExprConstraintVarsAt env (getType SubE) SubE Info
             else Inr (([], []), Info)) = Inr (r, S)"
          by simp
        show ?thesis
        proof (rule cachedOr_frame [OF c ji])
          fix r1 S1
          assume "(if opc2 = UO_Deref then getExprConstraintVarsAt env (getType SubE) SubE Info
             else Inr (([], []), Info)) = Inr (r1, S1)"
          then show "PersistentConstraints S1 j = PersistentConstraints Info j"
            using "9.IH"(7) [OF np nn addr UnaryOperator _ _ jS] by (auto split: if_splits)
        qed
      next
        case (ArraySubscriptExpr k U Base Idx)
        have jB: "j \<notin> set (nodeIds Base)" using jU ArraySubscriptExpr by simp
        from run np nn addr ArraySubscriptExpr
        have c: "cachedOr ?E Info (getExprConstraintVarsAt env (getType Base) Base Info) = Inr (r, S)"
          by simp
        show ?thesis
        proof (rule cachedOr_frame [OF c ji])
          fix r1 S1
          assume "getExprConstraintVarsAt env (getType Base) Base Info = Inr (r1, S1)"
          then show "PersistentConstraints S1 j = PersistentConstraints Info j"
            using "9.IH"(8) [OF np nn addr ArraySubscriptExpr _ jB] by simp
        qed
      next
        case (DeclRefExpr y1 y2 y3)
        from run np nn addr DeclRefExpr
        have c: "cachedOr ?E Info
            (case getExprConstraintVarsAt env (getType ?U) ?U Info of
               Inl err \<Rightarrow> Inl err
             | Inr (T1, Info1) \<Rightarrow>
                 if fst T1 = [] then Inl AssertionFailed
                 else (case addAtomAll (fst T1) PtrAtom Info1 of
                         (Res, Info2) \<Rightarrow> Inr ((Res, snd T1), Info2))) = Inr (r, S)"
          by simp
        show ?thesis
          by (rule cachedOr_frame [OF c ji])
             (erule dflt, erule "9.IH"(1) [OF np nn addr DeclRefExpr _ jU])
      next
        case (MemberExpr y1 y2 y3 y4)
        from run np nn addr MemberExpr
        have c: "cachedOr ?E Info
            (case getExprConstraintVarsAt env (getType ?U) ?U Info of
               Inl err \<Rightarrow> Inl err
             | Inr (T1, Info1) \<Rightarrow>
                 if fst T1 = [] then Inl AssertionFailed
                 else (case addAtomAll (fst T1) PtrAtom Info1 of
                         (Res, Info2) \<Rightarrow> Inr ((Res, snd T1), Info2))) = Inr (r, S)"
          by simp
        show ?thesis
          by (rule cachedOr_frame [OF c ji])
             (erule dflt, erule "9.IH"(2) [OF np nn addr MemberExpr _ jU])
      next
        case (ParenExpr y1 y2 y3)
        from run np nn addr ParenExpr
        have c: "cachedOr ?E Info
            (case getExprConstraintVarsAt env (getType ?U) ?U Info of
               Inl err \<Rightarrow> Inl err
             | Inr (T1, Info1) \<Rightarrow>
                 if fst T1 = [] then Inl AssertionFailed
                 else (case addAtomAll (fst T1) PtrAtom Info1 of
                         (Res, Info2) \<Rightarrow> Inr ((Res, snd T1), Info2))) = Inr (r, S)"
          by simp
        show ?thesis
          by (rule cachedOr_frame [OF c ji])
             (erule dflt, erule "9.IH"(3) [OF np nn addr ParenExpr _ jU])
      next
        case (ImplicitCastExpr y1 y2 y3)
        from run np nn addr ImplicitCastExpr
        have c: "cachedOr ?E Info
            (case getExprConstraintVarsAt env (getType ?U) ?U Info of
               Inl err \<Rightarrow> Inl err
             | Inr (T1, Info1) \<Rightarrow>
                 if fst T1 = [] then Inl AssertionFailed
                 else (case addAtomAll (fst T1) PtrAtom Info1 of
                         (Res, Info2) \<Rightarrow> Inr ((Res, snd T1), Info2))) = Inr (r, S)"
          by simp
        show ?thesis
          by (rule cachedOr_frame [OF c ji])
             (erule dflt, erule "9.IH"(4) [OF np nn addr ImplicitCastExpr _ jU])
      next
        case (CStyleCastExpr y1 y2 y3)
        from run np nn addr CStyleCastExpr
        have c: "cachedOr ?E Info
            (case getExprConstraintVarsAt env (getType ?U) ?U Info of
               Inl err \<Rightarrow> Inl err
             | Inr (T1, Info1) \<Rightarrow>
                 if fst T1 = [] then Inl AssertionFailed
                 else (case addAtomAll (fst T1) PtrAtom Info1 of
                         (Res, Info2) \<Rightarrow> Inr ((Res, snd T1), Info2))) = Inr (r, S)"
          by simp
        show ?thesis
          by (rule cachedOr_frame [OF c ji])
             (erule dflt, erule "9.IH"(5) [OF np nn addr CStyleCastExpr _ jU])
      next
        case (BinaryOperator y1 y2 y3 y4 y5)
        from run np nn addr BinaryOperator
        have c: "cachedOr ?E Info
            (case getExprConstraintVarsAt env (getType ?U) ?U Info of
               Inl err \<Rightarrow> Inl err
             | Inr (T1, Info1) \<Rightarrow>
                 if fst T1 = [] then Inl AssertionFailed
                 else (case addAtomAll (fst T1) PtrAtom Info1 of
                         (Res, Info2) \<Rightarrow> Inr ((Res, snd T1), Info2))) = Inr (r, S)"
          by simp
        show ?thesis
          by (rule cachedOr_frame [OF c ji])
             (erule dflt, erule "9.IH"(6) [OF np nn addr BinaryOperator _ jU])
      next
        case (CallExpr y1 y2 y3 y4 y5)
        from run np nn addr CallExpr
        have c: "cachedOr ?E Info
            (case getExprConstraintVarsAt env (getType ?U) ?U Info of
               Inl err \<Rightarrow> Inl err
             | Inr (T1, Info1) \<Rightarrow>
                 if fst T1 = [] then Inl AssertionFailed
                 else (case addAtomAll (fst T1) PtrAtom Info1 of
                         (Res, Info2) \<Rightarrow> Inr ((Res, snd T1), Info2))) = Inr (r, S)"
          by simp
        show ?thesis
          by (rule cachedOr_frame [OF c ji])
             (erule dflt, erule "9.IH"(9) [OF np nn addr CallExpr _ jU])
      next
        case (ConditionalOperator y1 y2 y3 y4 y5)
        from run np nn addr ConditionalOperator
        have c: "cachedOr ?E Info
            (case getExprConstraintVarsAt env (getType ?U) ?U Info of
               Inl err \<Rightarrow> Inl err
             | Inr (T1, Info1) \<Rightarrow>
                 if fst T1 = [] then Inl AssertionFailed
                 else (case addAtomAll (fst T1) PtrAtom Info1 of
                         (Res, Info2) \<Rightarrow> Inr ((Res, snd T1), Info2))) = Inr (r, S)"
          by simp
        show ?thesis
          by (rule cachedOr_frame [OF c ji])
             (erule dflt, erule "9.IH"(10) [OF np nn addr ConditionalOperator _ jU])
      next
        case (InitListExpr y1 y2 y3)
        from run np nn addr InitListExpr
        have c: "cachedOr ?E Info
            (case getExprConstraintVarsAt env (getType ?U) ?U Info of
               Inl err \<Rightarrow> Inl err
             | Inr (T1, Info1) \<Rightarrow>
                 if fst T1 = [] then Inl AssertionFailed
                 else (case addAtomAll (fst T1) PtrAtom Info1 of
                         (Res, Info2) \<Rightarrow> Inr ((Res, snd T1), Info2))) = Inr (r, S)"
          by simp
        show ?thesis
          by (rule cachedOr_frame [OF c ji])
             (erule dflt, erule "9.IH"(11) [OF np nn addr InitListExpr _ jU])
      next
        case (CompoundLiteralExpr y1 y2 y3)
        from run np nn addr CompoundLiteralExpr
        have c: "cachedOr ?E Info
            (case getExprConstraintVarsAt env (getType ?U) ?U Info of
               Inl err \<Rightarrow> Inl err
             | Inr (T1, Info1) \<Rightarrow>
                 if fst T1 = [] then Inl AssertionFailed
                 else (case addAtomAll (fst T1) PtrAtom Info1 of
                         (Res, Info2) \<Rightarrow> Inr ((Res, snd T1), Info2))) = Inr (r, S)"
          by simp
        show ?thesis
          by (rule cachedOr_frame [OF c ji])
             (erule dflt, erule "9.IH"(12) [OF np nn addr CompoundLiteralExpr _ jU])
      next
        case (StringLiteral y1 y2 y3)
        from run np nn addr StringLiteral
        have c: "cachedOr ?E Info
            (case getExprConstraintVarsAt env (getType ?U) ?U Info of
               Inl err \<Rightarrow> Inl err
             | Inr (T1, Info1) \<Rightarrow>
                 if fst T1 = [] then Inl AssertionFailed
                 else (case addAtomAll (fst T1) PtrAtom Info1 of
                         (Res, Info2) \<Rightarrow> Inr ((Res, snd T1), Info2))) = Inr (r, S)"
          by simp
        show ?thesis
          by (rule cachedOr_frame [OF c ji])
             (erule dflt, erule "9.IH"(13) [OF np nn addr StringLiteral _ jU])
      next
        case (StmtExpr y1 y2 y3)
        from run np nn addr StmtExpr
        have c: "cachedOr ?E Info
            (case getExprConstraintVarsAt env (getType ?U) ?U Info of
               Inl err \<Rightarrow> Inl err
             | Inr (T1, Info1) \<Rightarrow>
                 if fst T1 = [] then Inl AssertionFailed
                 else (case addAtomAll (fst T1) PtrAtom Info1 of
                         (Res, Info2) \<Rightarrow> Inr ((Res, snd T1), Info2))) = Inr (r, S)"
          by simp
        show ?thesis
          by (rule cachedOr_frame [OF c ji])
             (erule dflt, erule "9.IH"(14) [OF np nn addr StmtExpr _ jU])
      next
        case (CHKCBindTemporaryExpr y1 y2 y3)
        from run np nn addr CHKCBindTemporaryExpr
        have c: "cachedOr ?E Info
            (case getExprConstraintVarsAt env (getType ?U) ?U Info of
               Inl err \<Rightarrow> Inl err
             | Inr (T1, Info1) \<Rightarrow>
                 if fst T1 = [] then Inl AssertionFailed
                 else (case addAtomAll (fst T1) PtrAtom Info1 of
                         (Res, Info2) \<Rightarrow> Inr ((Res, snd T1), Info2))) = Inr (r, S)"
          by simp
        show ?thesis
          by (rule cachedOr_frame [OF c ji])
             (erule dflt, erule "9.IH"(15) [OF np nn addr CHKCBindTemporaryExpr _ jU])
      next
        case (UnaryExprOrTypeTraitExpr y1 y2 y3 y4)
        from run np nn addr UnaryExprOrTypeTraitExpr
        have c: "cachedOr ?E Info
            (case getExprConstraintVarsAt env (getType ?U) ?U Info of
               Inl err \<Rightarrow> Inl err
             | Inr (T1, Info1) \<Rightarrow>
                 if fst T1 = [] then Inl AssertionFailed
                 else (case addAtomAll (fst T1) PtrAtom Info1 of
                         (Res, Info2) \<Rightarrow> Inr ((Res, snd T1), Info2))) = Inr (r, S)"
          by simp
        show ?thesis
          by (rule cachedOr_frame [OF c ji])
             (erule dflt, erule "9.IH"(16) [OF np nn addr UnaryExprOrTypeTraitExpr _ jU])
      next
        case (IntegerLiteral y1 y2 y3)
        from run np nn addr IntegerLiteral
        have c: "cachedOr ?E Info
            (case getExprConstraintVarsAt env (getType ?U) ?U Info of
               Inl err \<Rightarrow> Inl err
             | Inr (T1, Info1) \<Rightarrow>
                 if fst T1 = [] then Inl AssertionFailed
                 else (case addAtomAll (fst T1) PtrAtom Info1 of
                         (Res, Info2) \<Rightarrow> Inr ((Res, snd T1), Info2))) = Inr (r, S)"
          by simp
        show ?thesis
          by (rule cachedOr_frame [OF c ji])
             (erule dflt, erule "9.IH"(17) [OF np nn addr IntegerLiteral _ jU])
      next
        case (OtherExpr y1 y2)
        from run np nn addr OtherExpr
        have c: "cachedOr ?E Info
            (case getExprConstraintVarsAt env (getType ?U) ?U Info of
               Inl err \<Rightarrow> Inl err
             | Inr (T1, Info1) \<Rightarrow>
                 if fst T1 = [] then Inl AssertionFailed
                 else (case addAtomAll (fst T1) PtrAtom Info1 of
                         (Res, Info2) \<Rightarrow> Inr ((Res, snd T1), Info2))) = Inr (r, S)"
          by simp
        show ?thesis
          by (rule cachedOr_frame [OF c ji])
             (erule dflt, erule "9.IH"(18) [OF np nn addr OtherExpr _ jU])
      qed
    next
      case False
      note naddr = False
      from run np nn naddr
      have c: "cachedOr ?E Info
          (if opc = UO_Deref then
             (case getExprConstraintVarsAt env (getType UOExpr) UOExpr Info of
                Inl err \<Rightarrow> Inl err
              | Inr (T1, Info1) \<Rightarrow>
                  (case handleDeref (fst T1) of
                     Inl err \<Rightarrow> Inl err
                   | Inr tmp \<Rightarrow> Inr ((tmp, snd T1), Info1)))
           else if opc \<in> {UO_PostInc, UO_PostDec, UO_PreInc, UO_PreDec} then
             getExprConstraintVarsAt env (getType UOExpr) UOExpr Info
           else if opc \<in> {UO_Plus, UO_Minus, UO_LNot, UO_Not} then Inr ((PVConstraintFromType TypE, []), Info)
           else Inl AssertionFailed) = Inr (r, S)"
        by simp
      show ?thesis
      proof (rule cachedOr_frame [OF c ji])
        fix r1 S1
        assume b: "(if opc = UO_Deref then
             (case getExprConstraintVarsAt env (getType UOExpr) UOExpr Info of
                Inl err \<Rightarrow> Inl err
              | Inr (T1, Info1) \<Rightarrow>
                  (case handleDeref (fst T1) of
                     Inl err \<Rightarrow> Inl err
                   | Inr tmp \<Rightarrow> Inr ((tmp, snd T1), Info1)))
           else if opc \<in> {UO_PostInc, UO_PostDec, UO_PreInc, UO_PreDec} then
             getExprConstraintVarsAt env (getType UOExpr) UOExpr Info
           else if opc \<in> {UO_Plus, UO_Minus, UO_LNot, UO_Not} then Inr ((PVConstraintFromType TypE, []), Info)
           else Inl AssertionFailed) = Inr (r1, S1)"
        show "PersistentConstraints S1 j = PersistentConstraints Info j"
        proof (cases "opc = UO_Deref")
          case True
          with b "9.IH"(19) [OF np nn naddr True _ ju] show ?thesis
            by (auto split: sum.splits prod.splits)
        next
          case False
          note nd = False
          show ?thesis
          proof (cases "opc \<in> {UO_PostInc, UO_PostDec, UO_PreInc, UO_PreDec}")
            case True
            with b nd "9.IH"(20) [OF np nn naddr nd True _ ju] show ?thesis by simp
          next
            case False
            with b nd show ?thesis by (auto split: if_splits)
          qed
        qed
      qed
    qed
  qed
next
  case (10 env TypE i T CalledExpr D args Info)
  let ?E = "CallExpr i T CalledExpr D args"
  let ?X = "(case D of
              None \<Rightarrow>
                (case getExprConstraintVarsAt env (getType CalledExpr) CalledExpr Info of
                   Inl err \<Rightarrow> Inl err
                 | Inr (tmp, Info1) \<Rightarrow> Inr ((calleeReturnVars (fst tmp), snd tmp, []), Info1))
            | Some FD \<Rightarrow>
                if \<not> isDeclaratorDecl FD then Inl Unreachable
                else if isFunctionAllocator (declName FD) then
                  (if args = [] then Inr (([getWildPVConstraint], [], []), Info)
                   else
                     (case analyzeAllocExpr env args (declName FD) of
                        Inl err \<Rightarrow> Inl err
                      | Inr None \<Rightarrow> Inr (([getWildPVConstraint], [], []), Info)
                      | Inr (Some (A, ArgTy)) \<Rightarrow>
                          (case newPVConstraint (PointerTy ArgTy) (''&'' @ declName FD) (nextVar Info) of
                             (PVC0, k) \<Rightarrow>
                               (let Info1 = Info\<lparr> nextVar := k,
                                             CS := constrainOuterTo (setIsGeneric PVC0 True) A True (CS Info) \<rparr>
                                in if declName FD = ''realloc'' then
                                     (case getExprConstraintVarsAt env (getType (IgnoreParenImpCasts (hd args)))
                                             (IgnoreParenImpCasts (hd args)) Info1 of
                                        Inl err \<Rightarrow> Inl err
                                      | Inr (RF, Info2) \<Rightarrow>
                                          Inr (([PVC (setIsGeneric PVC0 True)], [], fst RF), Info2))
                                   else Inr (([PVC (setIsGeneric PVC0 True)], [], []), Info1)))))
                else
                  (case Info_getVariable env FD of
                     None \<Rightarrow> Inl AssertionFailed
                   | Some (FVC FVC0) \<Rightarrow> Inr ((fvReturnVars FVC0, [], []), Info)
                   | Some (PVC tmp) \<Rightarrow>
                       (case pvFV tmp of
                          Some FVC0 \<Rightarrow> Inr ((fvReturnVars FVC0, [], []), Info)
                        | None \<Rightarrow> Inr (([FVC defaultFVConstraint], [], []), Info))))"
  note run = "10.prems"(1) and nj = "10.prems"(2)
  have ji: "j \<noteq> exprId ?E" and jc: "j \<notin> set (nodeIds CalledExpr)"
    and ja: "j \<notin> (\<Union>a\<in>set args. set (nodeIds a))" using nj by auto
  have jh: "j \<notin> set (nodeIds (IgnoreParenImpCasts (hd args)))" if "args \<noteq> []"
    using hd_ids [OF that ja] .
  show ?case
  proof (cases "isNonPointerType TypE \<or> isNULLExpression env ?E")
    case True
    with run show ?thesis by (auto split: if_splits)
  next
    case False
    then have np: "\<not> isNonPointerType TypE" and nn: "\<not> isNULLExpression env ?E" by auto
    have X: "PersistentConstraints I1 j = PersistentConstraints Info j" if x: "?X = Inr (R, I1)" for R I1
    proof (cases D)
      case None
      with x "10.IH"(1) [OF np nn None _ jc] show ?thesis
        by (auto split: sum.splits prod.splits)
    next
      case (Some FD)
      show ?thesis
      proof (cases "isDeclaratorDecl FD \<and> isFunctionAllocator (declName FD) \<and> args \<noteq> [] \<and>
                    declName FD = ''realloc''")
        case True
        then have d: "isDeclaratorDecl FD" "isFunctionAllocator (declName FD)" "args \<noteq> []"
          "declName FD = ''realloc''" by auto
        show ?thesis
        proof (cases "analyzeAllocExpr env args ''realloc''")
          case (Inl err)
          with x Some d show ?thesis by simp
        next
          case (Inr res)
          show ?thesis
          proof (cases res)
            case None
            with x Some d Inr show ?thesis by simp
          next
            case (Some AT)
            obtain A ArgTy where AT: "AT = (A, ArgTy)" by (cases AT)
            obtain PVC0 k where new: "newPVConstraint (PointerTy ArgTy) ''&realloc'' (nextVar Info) = (PVC0, k)"
              by (cases "newPVConstraint (PointerTy ArgTy) ''&realloc'' (nextVar Info)")
            let ?I1 = "Info\<lparr> nextVar := k,
                         CS := constrainOuterTo (setIsGeneric PVC0 True) A True (CS Info) \<rparr>"
            from x \<open>D = Some FD\<close> d Inr Some AT new
            have y: "(case getExprConstraintVarsAt env (getType (IgnoreParenImpCasts (hd args)))
                             (IgnoreParenImpCasts (hd args)) ?I1 of
                        Inl err \<Rightarrow> Inl err
                      | Inr (RF, Info2) \<Rightarrow>
                          Inr (([PVC (setIsGeneric PVC0 True)], [], fst RF), Info2)) = Inr (R, I1)"
              by (simp add: Let_def)
            then obtain RF where g: "getExprConstraintVarsAt env (getType (IgnoreParenImpCasts (hd args)))
                             (IgnoreParenImpCasts (hd args)) ?I1 = Inr (RF, I1)"
              by (auto split: sum.splits prod.splits)
            have "PersistentConstraints I1 j = PersistentConstraints ?I1 j"
              using "10.IH"(2) [OF np nn \<open>D = Some FD\<close> _ d(2) d(3) _ _ _ _ _ d(4) g jh [OF d(3)]]
                d Inr Some AT new
              by (simp add: Let_def)
            then show ?thesis by simp
          qed
        qed
      next
        case False
        with x Some show ?thesis
          by (auto simp: Let_def split: if_splits sum.splits option.splits prod.splits
              ConstraintVariable.splits)
      qed
    qed
    from run np nn
    have c: "cachedOr ?E Info
        (case ?X of
           Inl err \<Rightarrow> Inl err
         | Inr ((ReturnCVs, ReturnBSet, ReallocFlow), Info1) \<Rightarrow>
             (case copyReturnVars env i T ReallocFlow ReturnCVs Info1 of
                (TmpCVs, Info2) \<Rightarrow> Inr ((TmpCVs, ReturnBSet), Info2))) = Inr (r, S)"
      by simp
    show ?thesis
    proof (rule cachedOr_frame [OF c ji])
      fix r1 S1
      assume b: "(case ?X of
           Inl err \<Rightarrow> Inl err
         | Inr ((ReturnCVs, ReturnBSet, ReallocFlow), Info1) \<Rightarrow>
             (case copyReturnVars env i T ReallocFlow ReturnCVs Info1 of
                (TmpCVs, Info2) \<Rightarrow> Inr ((TmpCVs, ReturnBSet), Info2))) = Inr (r1, S1)"
      then obtain RC RB RF I1 where x: "?X = Inr ((RC, RB, RF), I1)"
        by (cases ?X) auto
      from b [unfolded x] obtain Tmp where cp: "copyReturnVars env i T RF RC I1 = (Tmp, S1)"
        by (auto split: prod.splits)
      from PC_copyReturnVars [OF cp] X [OF x]
      show "PersistentConstraints S1 j = PersistentConstraints Info j" by simp
    qed
  qed
next
  case (11 env TypE i T C L R Info)
  then show ?case
    by (auto simp: frame_simps split: if_splits sum.splits prod.splits)
next
  case (12 env TypE i T SubExprs Info)
  then show ?case
    by (auto simp: frame_simps split: if_splits sum.splits prod.splits dest!: PC_addAtomAll)
next
  case (13 env TypE i T Init Info)
  then show ?case
    by (auto simp: frame_simps split: if_splits sum.splits prod.splits dest!: PC_getRewritable)
next
  case (14 env TypE i T s Info)
  then show ?case
    by (auto simp: frame_simps split: if_splits sum.splits prod.splits)
next
  case (15 env TypE i T Res Info)
  then show ?case
    by (auto simp: frame_simps split: if_splits sum.splits prod.splits option.splits)
next
  case (16 env TypE i T k A Info)
  then show ?case by (auto simp: frame_simps split: if_splits)
next
  case (17 env TypE i T n Info)
  then show ?case by (auto simp: frame_simps split: if_splits)
next
  case (18 env TypE i T Info)
  then show ?case by (auto simp: frame_simps split: if_splits)
next
  case (19 env Info)
  then show ?case by simp
next
  case (20 env E Exprs Info)
  then show ?case by (auto split: sum.splits prod.splits)
qed

lemma cachedOr_entry:
  "cachedOr E S0 body = Inr (r, S) \<Longrightarrow> PersistentConstraints S (exprId E) = Some r"
  by (auto simp: cachedOr_def hasPersistentConstraints_def getPersistentConstraints_def
      storePersistentConstraints_def split: if_splits sum.splits option.splits)

lemma cachedOr_hit:
  "PersistentConstraints S (exprId E) = Some r \<Longrightarrow> cachedOr E S body = Inr (r, S)"
  by (simp add: cachedOr_def hasPersistentConstraints_def getPersistentConstraints_def)

lemma getInvalidCastPVCons_entry:
  assumes "getInvalidCastPVCons env E S2 = (Ret, S)"
  shows "\<exists>c. PersistentConstraints S (exprId E) = Some c \<and> fst c = Ret"
    and "set (CS S2) \<subseteq> set (CS S)"
    and "j \<noteq> exprId E \<Longrightarrow> PersistentConstraints S j = PersistentConstraints S2 j"
  using assms
  by (auto simp: getInvalidCastPVCons_def hasPersistentConstraints_def getPersistentConstraints_def
      storePersistentConstraints_def set_constrainToWild Let_def
      split: if_splits prod.splits option.splits)

lemma getInvalidCastPVCons_hit:
  "PersistentConstraints S (exprId E) = Some c \<Longrightarrow> getInvalidCastPVCons env E S = (fst c, S)"
  by (simp add: getInvalidCastPVCons_def hasPersistentConstraints_def getPersistentConstraints_def)

lemma CS_self_update: "S\<lparr> CS := CS S \<rparr> = (S :: ProgramInfo)"
  by simp

lemma resolver_stable:
  "getExprConstraintVarsAt env TypE E S0 = Inr (r, S) \<Longrightarrow> distinct (nodeIds E) \<Longrightarrow>
   \<forall>j\<in>set (nodeIds E). PersistentConstraints S'' j = PersistentConstraints S j \<Longrightarrow>
   set (CS S) \<subseteq> set (CS S'') \<Longrightarrow>
   getExprConstraintVarsAt env TypE E S'' = Inr (r, S'')"
proof (induction E arbitrary: TypE S0 r S S'')
  case (DeclRefExpr x1 x2 x3)
  then show ?case by (auto split: if_splits option.splits)
next
  case (MemberExpr x1 x2 x3 x4)
  from MemberExpr.prems(1) show ?case by (auto split: if_splits option.splits)
next
  case (ParenExpr x1 x2 x3)
  from ParenExpr.IH [of TypE S0 r S S''] ParenExpr.prems show ?case by simp
next
  case (CHKCBindTemporaryExpr x1 x2 x3)
  let ?E = "CHKCBindTemporaryExpr x1 x2 x3"
  note run = CHKCBindTemporaryExpr.prems(1)
  show ?case
  proof (cases "isNonPointerType TypE \<or> isNULLExpression env ?E")
    case True
    with run show ?thesis by auto
  next
    case False
    with run CHKCBindTemporaryExpr.IH [of "getType x3" S0 r S S''] CHKCBindTemporaryExpr.prems
    show ?thesis by simp
  qed
next
  case (ImplicitCastExpr i T sub)
  let ?E = "ImplicitCastExpr i T sub"
  let ?rsn = "''Cast from '' @ getAsString env (getType sub) @ '' to '' @ getAsString env TypE"
  let ?psl = "Some (exprPSL env ?E)"
  note run = ImplicitCastExpr.prems(1) and dist = ImplicitCastExpr.prems(2)
    and agree = ImplicitCastExpr.prems(3) and cs = ImplicitCastExpr.prems(4)
  from dist have isub: "i \<notin> set (nodeIds sub)" and dsub: "distinct (nodeIds sub)" by auto
  show ?case
  proof (cases "isNonPointerType TypE \<or> isNULLExpression env ?E")
    case True
    with run show ?thesis by auto
  next
    case False
    then have np: "\<not> isNonPointerType TypE" and nn: "\<not> isNULLExpression env ?E" by auto
    from run np nn obtain CVs S1 where
      sub: "getExprConstraintVarsAt env (getType sub) sub S0 = Inr (CVs, S1)"
      by (cases "getExprConstraintVarsAt env (getType sub) sub S0") auto
    show ?thesis
    proof (cases "isPointerType TypE \<and>
                \<not> (isFunctionType (getType sub) \<or> isArrayType (getType sub) \<or> isVoidPointerType (getType sub)) \<and>
                \<not> isCastSafe env TypE (getType sub)")
      case False
      with run np nn sub have eq: "r = CVs" "S = S1" by auto
      from agree have "\<forall>j\<in>set (nodeIds sub). PersistentConstraints S'' j = PersistentConstraints S1 j"
        by (simp add: eq)
      from ImplicitCastExpr.IH [OF sub dsub this] cs eq
      have "getExprConstraintVarsAt env (getType sub) sub S'' = Inr (CVs, S'')" by simp
      with np nn False eq show ?thesis by auto
    next
      case True
      let ?S2 = "S1\<lparr> CS := constrainAllToWild (fst CVs) ?rsn ?psl (CS S1) \<rparr>"
      from run np nn sub True obtain Ret where
        inv: "getInvalidCastPVCons env ?E ?S2 = (Ret, S)" and r: "r = (Ret, [])"
        by (cases "getInvalidCastPVCons env ?E ?S2") auto
      from getInvalidCastPVCons_entry(1) [OF inv] obtain c where
        c: "PersistentConstraints S i = Some c" "fst c = Ret" by auto
      note grow = getInvalidCastPVCons_entry(2) [OF inv]
      have keep: "PersistentConstraints S j = PersistentConstraints S1 j" if "j \<in> set (nodeIds sub)" for j
        using getInvalidCastPVCons_entry(3) [OF inv, of j] that isub by auto
      have a1: "\<forall>j\<in>set (nodeIds sub). PersistentConstraints S'' j = PersistentConstraints S1 j"
        using agree keep by simp
      have edges: "set (CS S1) \<union> (\<Union>V\<in>set (fst CVs). set (wildEdges ?rsn ?psl (atomsCV V)))
          \<subseteq> set (CS S'')"
        using grow cs by (auto simp: set_constrainAllToWild)
      then have c1: "set (CS S1) \<subseteq> set (CS S'')" by simp
      from ImplicitCastExpr.IH [OF sub dsub a1 c1]
      have sub2: "getExprConstraintVarsAt env (getType sub) sub S'' = Inr (CVs, S'')" .
      have absorb: "constrainAllToWild (fst CVs) ?rsn ?psl (CS S'') = CS S''"
        using edges by (intro constrainAllToWild_absorb) simp
      have hit: "getInvalidCastPVCons env ?E S'' = (Ret, S'')"
        using getInvalidCastPVCons_hit [of S'' ?E c env] c agree by simp
      show ?thesis
        using np nn True sub2 absorb hit r by simp
    qed
  qed
next
  case (StmtExpr i T Res)
  let ?E = "StmtExpr i T Res"
  note run = StmtExpr.prems(1) and dist = StmtExpr.prems(2)
    and agree = StmtExpr.prems(3) and cs = StmtExpr.prems(4)
  from agree have ai: "PersistentConstraints S'' i = PersistentConstraints S i" by simp
  show ?case
  proof (cases "isNonPointerType TypE \<or> isNULLExpression env ?E")
    case True
    with run show ?thesis by auto
  next
    case False
    then have np: "\<not> isNonPointerType TypE" and nn: "\<not> isNULLExpression env ?E" by auto
    show ?thesis
    proof (cases "PersistentConstraints S0 i")
      case (Some c)
      with run np nn have "r = c" "S = S0"
        by (auto simp: hasPersistentConstraints_def getPersistentConstraints_def)
      with Some ai np nn show ?thesis
        by (simp add: hasPersistentConstraints_def getPersistentConstraints_def)
    next
      case None
      show ?thesis
      proof (cases Res)
        case None
        with run np nn \<open>PersistentConstraints S0 i = None\<close>
        have "r = ([], [])" "PersistentConstraints S i = Some ([], [])"
          by (auto simp: hasPersistentConstraints_def storePersistentConstraints_def)
        with ai np nn show ?thesis
          by (simp add: hasPersistentConstraints_def getPersistentConstraints_def)
      next
        case (Some ESE)
        from dist Some have iE: "i \<notin> set (nodeIds ESE)" and dE: "distinct (nodeIds ESE)" by auto
        from run np nn \<open>PersistentConstraints S0 i = None\<close> Some
        have g: "getExprConstraintVarsAt env (getType ESE) ESE S0 = Inr (r, S)"
          by (simp add: hasPersistentConstraints_def)
        from resolver_frame(1) [OF g iE] \<open>PersistentConstraints S0 i = None\<close> ai
        have none: "PersistentConstraints S'' i = None" by simp
        from agree Some
        have a1: "\<forall>j\<in>set (nodeIds ESE). PersistentConstraints S'' j = PersistentConstraints S j"
          by simp
        have "ESE \<in> set_option Res" using Some by simp
        from StmtExpr.IH [OF this g dE a1 cs]
        have "getExprConstraintVarsAt env (getType ESE) ESE S'' = Inr (r, S'')" .
        with np nn none Some show ?thesis by (simp add: hasPersistentConstraints_def)
      qed
    qed
  qed
next
  case (CStyleCastExpr x1 x2 x3)
  let ?E = "CStyleCastExpr x1 x2 x3"
  note run = CStyleCastExpr.prems(1) and agree = CStyleCastExpr.prems(3)
  show ?case
  proof (cases "isNonPointerType TypE")
    case True
    with run show ?thesis by auto
  next
    case False
    from run False have "PersistentConstraints S (exprId ?E) = Some r"
      by (auto dest!: cachedOr_entry)
    with agree have "PersistentConstraints S'' (exprId ?E) = Some r" by simp
    from cachedOr_hit [OF this] False show ?thesis by simp
  qed
next
  case (BinaryOperator x1 x2 x3 x4 x5)
  let ?E = "BinaryOperator x1 x2 x3 x4 x5"
  note run = BinaryOperator.prems(1) and agree = BinaryOperator.prems(3)
  show ?case
  proof (cases "isNonPointerType TypE \<or> isNULLExpression env ?E")
    case True
    with run show ?thesis by auto
  next
    case False
    then have np: "\<not> isNonPointerType TypE" and nn: "\<not> isNULLExpression env ?E" by auto
    from run np nn have "PersistentConstraints S (exprId ?E) = Some r"
      by (auto dest!: cachedOr_entry)
    with agree have "PersistentConstraints S'' (exprId ?E) = Some r" by simp
    from cachedOr_hit [OF this] np nn show ?thesis by simp
  qed
next
  case (ArraySubscriptExpr x1 x2 x3 x4)
  let ?E = "ArraySubscriptExpr x1 x2 x3 x4"
  note run = ArraySubscriptExpr.prems(1) and agree = ArraySubscriptExpr.prems(3)
  show ?case
  proof (cases "isNonPointerType TypE \<or> isNULLExpression env ?E")
    case True
    with run show ?thesis by auto
  next
    case False
    then have np: "\<not> isNonPointerType TypE" and nn: "\<not> isNULLExpression env ?E" by auto
    from run np nn have "PersistentConstraints S (exprId ?E) = Some r"
      by (auto dest!: cachedOr_entry)
    with agree have "PersistentConstraints S'' (exprId ?E) = Some r" by simp
    from cachedOr_hit [OF this] np nn show ?thesis by simp
  qed
next
  case (UnaryOperator x1 x2 x3 x4)
  let ?E = "UnaryOperator x1 x2 x3 x4"
  note run = UnaryOperator.prems(1) and agree = UnaryOperator.prems(3)
  show ?case
  proof (cases "isNonPointerType TypE \<or> isNULLExpression env ?E")
    case True
    with run show ?thesis by auto
  next
    case False
    then have np: "\<not> isNonPointerType TypE" and nn: "\<not> isNULLExpression env ?E" by auto
    from run np nn have "PersistentConstraints S (exprId ?E) = Some r"
      by (auto dest!: cachedOr_entry)
    with agree have "PersistentConstraints S'' (exprId ?E) = Some r" by simp
    from cachedOr_hit [OF this] np nn show ?thesis by simp
  qed
next
  case (CallExpr x1 x2 x3 x4 x5)
  let ?E = "CallExpr x1 x2 x3 x4 x5"
  note run = CallExpr.prems(1) and agree = CallExpr.prems(3)
  show ?case
  proof (cases "isNonPointerType TypE \<or> isNULLExpression env ?E")
    case True
    with run show ?thesis by auto
  next
    case False
    then have np: "\<not> isNonPointerType TypE" and nn: "\<not> isNULLExpression env ?E" by auto
    from run np nn have "PersistentConstraints S (exprId ?E) = Some r"
      by (auto dest!: cachedOr_entry)
    with agree have "PersistentConstraints S'' (exprId ?E) = Some r" by simp
    from cachedOr_hit [OF this] np nn show ?thesis by simp
  qed
next
  case (ConditionalOperator x1 x2 x3 x4 x5)
  let ?E = "ConditionalOperator x1 x2 x3 x4 x5"
  note run = ConditionalOperator.prems(1) and agree = ConditionalOperator.prems(3)
  show ?case
  proof (cases "isNonPointerType TypE \<or> isNULLExpression env ?E")
    case True
    with run show ?thesis by auto
  next
    case False
    then have np: "\<not> isNonPointerType TypE" and nn: "\<not> isNULLExpression env ?E" by auto
    from run np nn have "PersistentConstraints S (exprId ?E) = Some r"
      by (auto dest!: cachedOr_entry)
    with agree have "PersistentConstraints S'' (exprId ?E) = Some r" by simp
    from cachedOr_hit [OF this] np nn show ?thesis by simp
  qed
next
  case (InitListExpr x1 x2 x3)
  let ?E = "InitListExpr x1 x2 x3"
  note run = InitListExpr.prems(1) and agree = InitListExpr.prems(3)
  show ?case
  proof (cases "isNonPointerType TypE \<or> isNULLExpression env ?E")
    case True
    with run show ?thesis by auto
  next
    case False
    then have np: "\<not> isNonPointerType TypE" and nn: "\<not> isNULLExpression env ?E" by auto
    from run np nn have "PersistentConstraints S (exprId ?E) = Some r"
      by (auto dest!: cachedOr_entry)
    with agree have "PersistentConstraints S'' (exprId ?E) = Some r" by simp
    from cachedOr_hit [OF this] np nn show ?thesis by simp
  qed
next
  case (CompoundLiteralExpr x1 x2 x3)
  let ?E = "CompoundLiteralExpr x1 x2 x3"
  note run = CompoundLiteralExpr.prems(1) and agree = CompoundLiteralExpr.prems(3)
  show ?case
  proof (cases "isNonPointerType TypE \<or> isNULLExpression env ?E")
    case True
    with run show ?thesis by auto
  next
    case False
    then have np: "\<not> isNonPointerType TypE" and nn: "\<not> isNULLExpression env ?E" by auto
    from run np nn have "PersistentConstraints S (exprId ?E) = Some r"
      by (auto dest!: cachedOr_entry)
    with agree have "PersistentConstraints S'' (exprId ?E) = Some r" by simp
    from cachedOr_hit [OF this] np nn show ?thesis by simp
  qed
next
  case (StringLiteral x1 x2 x3)
  let ?E = "StringLiteral x1 x2 x3"
  note run = StringLiteral.prems(1) and agree = StringLiteral.prems(3)
  show ?case
  proof (cases "isNonPointerType TypE \<or> isNULLExpression env ?E")
    case True
    with run show ?thesis by auto
  next
    case False
    then have np: "\<not> isNonPointerType TypE" and nn: "\<not> isNULLExpression env ?E" by auto
    from run np nn have "PersistentConstraints S (exprId ?E) = Some r"
      by (auto dest!: cachedOr_entry)
    with agree have "PersistentConstraints S'' (exprId ?E) = Some r" by simp
    from cachedOr_hit [OF this] np nn show ?thesis by simp
  qed
next
  case (UnaryExprOrTypeTraitExpr x1 x2 x3 x4)
  let ?E = "UnaryExprOrTypeTraitExpr x1 x2 x3 x4"
  note run = UnaryExprOrTypeTraitExpr.prems(1) and agree = UnaryExprOrTypeTraitExpr.prems(3)
  show ?case
  proof (cases "isNonPointerType TypE \<or> isNULLExpression env ?E")
    case True
    with run show ?thesis by auto
  next
    case False
    then have np: "\<not> isNonPointerType TypE" and nn: "\<not> isNULLExpression env ?E" by auto
    from run np nn have "PersistentConstraints S (exprId ?E) = Some r"
      by (auto dest!: cachedOr_entry)
    with agree have "PersistentConstraints S'' (exprId ?E) = Some r" by simp
    from cachedOr_hit [OF this] np nn show ?thesis by simp
  qed
next
  case (IntegerLiteral x1 x2 x3)
  let ?E = "IntegerLiteral x1 x2 x3"
  note run = IntegerLiteral.prems(1) and agree = IntegerLiteral.prems(3)
  show ?case
  proof (cases "isNonPointerType TypE \<or> isNULLExpression env ?E")
    case True
    with run show ?thesis by auto
  next
    case False
    then have np: "\<not> isNonPointerType TypE" and nn: "\<not> isNULLExpression env ?E" by auto
    from run np nn have "PersistentConstraints S (exprId ?E) = Some r"
      by (auto dest!: cachedOr_entry)
    with agree have "PersistentConstraints S'' (exprId ?E) = Some r" by simp
    from cachedOr_hit [OF this] np nn show ?thesis by simp
  qed
next
  case (OtherExpr x1 x2)
  let ?E = "OtherExpr x1 x2"
  note run = OtherExpr.prems(1) and agree = OtherExpr.prems(3)
  show ?case
  proof (cases "isNonPointerType TypE \<or> isNULLExpression env ?E")
    case True
    with run show ?thesis by auto
  next
    case False
    then have np: "\<not> isNonPointerType TypE" and nn: "\<not> isNULLExpression env ?E" by auto
    from run np nn have "PersistentConstraints S (exprId ?E) = Some r"
      by (auto dest!: cachedOr_entry)
    with agree have "PersistentConstraints S'' (exprId ?E) = Some r" by simp
    from cachedOr_hit [OF this] np nn show ?thesis by simp
  qed
qed

lemma cached_kind_entry:
  assumes run: "getExprConstraintVarsAt env TypE E S0 = Inr (r, S)"
    and kind: "isCachedKind E" and np: "\<not> isNonPointerType TypE" and nn: "\<not> isNULLExpression env E"
  shows "PersistentConstraints S (exprId E) = Some r"
proof (cases E)
  case (StmtExpr i T Res)
  with kind have "Res = None" by simp
  with run np nn StmtExpr show ?thesis
    by (auto simp: hasPersistentConstraints_def getPersistentConstraints_def
        storePersistentConstraints_def split: if_splits option.splits)
qed (use run kind np nn in \<open>auto dest!: cachedOr_entry\<close>)

text \<open>
  C8: let the resolution of an expression return a result \<open>r\<close> and leave the state
  \<open>Info'\<close>, the identities of the nodes of the expression being distinct. Then a second
  resolution of the expression, in \<open>Info'\<close>, returns \<open>r\<close> again and leaves \<open>Info'\<close> as it is:
  no edge is added, no variable is created, nothing is stored. The same holds in every
  later state that still has what \<open>Info'\<close> stores for the nodes of the expression and still
  has the edges of \<open>Info'\<close>. For a node of a stored kind, at a pointer type and not a null
  pointer expression, \<open>r\<close> is what \<open>Info'\<close> stores under the identity of the node.
\<close>

theorem C8_second_resolution_memoized:
  assumes "getExprConstraintVars env E Info = Inr (r, Info')" and "distinct (nodeIds E)"
  shows "getExprConstraintVars env E Info' = Inr (r, Info') \<and>
     (\<forall>Info''. (\<forall>j\<in>set (nodeIds E). PersistentConstraints Info'' j = PersistentConstraints Info' j) \<and>
                set (CS Info') \<subseteq> set (CS Info'') \<longrightarrow>
        getExprConstraintVars env E Info'' = Inr (r, Info'')) \<and>
     (isCachedKind E \<and> \<not> isNonPointerType (getType E) \<and> \<not> isNULLExpression env E \<longrightarrow>
        PersistentConstraints Info' (exprId E) = Some r)"
proof (intro conjI allI impI)
  from assms show "getExprConstraintVars env E Info' = Inr (r, Info')"
    unfolding getExprConstraintVars_def by (rule resolver_stable) simp_all
next
  fix Info'' :: ProgramInfo
  assume "(\<forall>j\<in>set (nodeIds E). PersistentConstraints Info'' j = PersistentConstraints Info' j) \<and>
          set (CS Info') \<subseteq> set (CS Info'')"
  with assms show "getExprConstraintVars env E Info'' = Inr (r, Info'')"
    unfolding getExprConstraintVars_def by (intro resolver_stable [where S = Info']) simp_all
next
  assume "isCachedKind E \<and> \<not> isNonPointerType (getType E) \<and> \<not> isNULLExpression env E"
  then have k: "isCachedKind E" and np: "\<not> isNonPointerType (getType E)"
    and nn: "\<not> isNULLExpression env E" by blast+
  from cached_kind_entry [OF assms(1) [unfolded getExprConstraintVars_def] k np nn]
  show "PersistentConstraints Info' (exprId E) = Some r" .
qed

text \<open>The unsafe cast \<open>(int * )q\<close> of \<open>char *q\<close>, resolved twice.\<close>

theorem C8_second_resolution_memoized_witness:
  "distinct (nodeIds charCast) \<and>
   getExprConstraintVars exampleEnv charCast
     (snd (projr (getExprConstraintVars exampleEnv charCast qInfo))) =
   getExprConstraintVars exampleEnv charCast qInfo"
proof -
  have dist: "distinct (nodeIds charCast)" by (simp add: charCast_def)
  have "\<exists>r I. getExprConstraintVars exampleEnv charCast qInfo = Inr (r, I)"
    by (simp add: getExprConstraintVars_def charCast_def exampleEnv_def qInfo_def
        emptyProgramInfo_def isNonPointerType_def cachedOr_def hasPersistentConstraints_def
        getInvalidCastPVCons_def newPVConstraint_def storePersistentConstraints_def)
  then obtain r I where run: "getExprConstraintVars exampleEnv charCast qInfo = Inr (r, I)" by blast
  from C8_second_resolution_memoized [OF run dist]
  have "getExprConstraintVars exampleEnv charCast I = Inr (r, I)" by blast
  with dist show ?thesis unfolding run by simp
qed

end
